theory Spec2Isabelle
  imports Main
begin

section \<open>JavaScript strings\<close>

text \<open>
  A JavaScript string is a sequence of UTF-16 code units; a code unit is modelled by
  its number. \<open>js\<close> turns an ASCII literal of the source into that form.
\<close>

type_synonym js_string = "nat list"

definition js :: "string \<Rightarrow> js_string" where
  "js s = map of_char s"

text \<open>
  \<open>String.prototype.trim\<close> removes leading and trailing WhiteSpace and
  LineTerminator code points (ECMAScript): TAB, LF, VT, FF, CR, SP, NBSP, U+1680,
  U+2000 to U+200A, U+2028, U+2029, U+202F, U+205F, U+3000 and U+FEFF.
\<close>

definition js_whitespace :: "nat \<Rightarrow> bool" where
  "js_whitespace c \<longleftrightarrow>
     c = 0x9 \<or> c = 0xA \<or> c = 0xB \<or> c = 0xC \<or> c = 0xD \<or> c = 0x20 \<or> c = 0xA0 \<or>
     c = 0x1680 \<or> (0x2000 \<le> c \<and> c \<le> 0x200A) \<or> c = 0x2028 \<or> c = 0x2029 \<or>
     c = 0x202F \<or> c = 0x205F \<or> c = 0x3000 \<or> c = 0xFEFF"

definition trim :: "js_string \<Rightarrow> js_string" where
  "trim s = rev (dropWhile js_whitespace (rev (dropWhile js_whitespace s)))"

text \<open>
  \<open>a || b\<close> on strings that may be \<open>undefined\<close> or \<open>null\<close>: the left operand when
  it is truthy (defined and not the empty string), the right one otherwise. \<open>js_or\<close> is
  the operator with a right operand that may be undefined itself, \<open>js_or_else\<close> the one
  with a string on the right.
\<close>

definition js_or :: "js_string option \<Rightarrow> js_string option \<Rightarrow> js_string option" where
  "js_or a b = (case a of Some s \<Rightarrow> (if s \<noteq> [] then Some s else b) | None \<Rightarrow> b)"

definition js_or_else :: "js_string option \<Rightarrow> js_string \<Rightarrow> js_string" where
  "js_or_else a b = (case a of Some s \<Rightarrow> (if s \<noteq> [] then s else b) | None \<Rightarrow> b)"


section \<open>services/api.ts: the types\<close>

record RepositoryCreate =
  rc_url :: js_string
  rc_auth_token :: "js_string option"
  rc_branch :: "js_string option"
  rc_monitoring_enabled :: "bool option"

datatype RepositoryStatus =
  pending | cloning | analyzing | generating_docs | completed | failed

record Repository =
  repository_id :: js_string
  repository_url :: js_string
  repository_name :: "js_string option"
  repository_description :: "js_string option"
  repository_status :: RepositoryStatus
  repository_last_commit_hash :: "js_string option"
  repository_branch :: js_string
  repository_monitoring_enabled :: bool
  repository_error_message :: "js_string option"
  repository_last_analyzed_at :: "js_string option"
  repository_created_at :: js_string
  repository_updated_at :: "js_string option"

record TechStack =
  languages :: "js_string list"
  frameworks :: "js_string list"
  databases :: "js_string list"

record DocumentationContent =
  executive_summary :: js_string
  product_overview :: js_string
  key_features :: "js_string list"
  tech_stack :: TechStack
  architecture :: js_string
  use_cases :: "js_string list"
  integrations :: "js_string list"
  marketing_points :: "js_string list"

text \<open>The \<open>number\<close> fields hold counts; they are modelled as integers.\<close>

record Documentation =
  documentation_id :: js_string
  documentation_repo_id :: js_string
  documentation_version :: int
  documentation_commit_hash :: js_string
  documentation_content :: DocumentationContent
  documentation_file_count :: int
  documentation_lines_of_code :: int
  documentation_created_at :: js_string

text \<open>\<open>duration_seconds\<close> (a float no caller reads) is left out.\<close>

record AnalysisResult =
  ar_success :: bool
  ar_repo_id :: js_string
  ar_documentation_id :: "js_string option"
  ar_error :: "js_string option"


section \<open>services/api.ts: the requests\<close>

datatype http_method = GET | POST | DELETE

datatype response_type = ResponseJson | ResponseBlob

record axios_request =
  req_method :: http_method
  req_url :: js_string
  req_data :: "RepositoryCreate option"
  req_responseType :: response_type

text \<open>
  An awaited promise either resolves with a value or rejects with an error, of which
  the callers read \<open>error.response?.data?.detail\<close> and \<open>error.message\<close>.
\<close>

record js_error =
  err_detail :: "js_string option"
  err_message :: "js_string option"

datatype 'a promise = Resolved 'a | Rejected js_error

text \<open>The functions that \<open>api.ts\<close> exports, with their arguments.\<close>

datatype api_call =
    AnalyzeRepository RepositoryCreate
  | GetRepositories
  | GetRepository js_string
  | DeleteRepository js_string
  | GetDocumentation js_string
  | GetDocumentationVersions js_string
  | ExportMarkdown js_string
  | ExportJSON js_string
  | GetMonitoringJobs

fun request_of :: "api_call \<Rightarrow> axios_request" where
  "request_of (AnalyzeRepository d) =
     \<lparr>req_method = POST, req_url = js ''/api/repos/analyze'', req_data = Some d,
      req_responseType = ResponseJson\<rparr>"
| "request_of GetRepositories =
     \<lparr>req_method = GET, req_url = js ''/api/repos'', req_data = None,
      req_responseType = ResponseJson\<rparr>"
| "request_of (GetRepository repoId) =
     \<lparr>req_method = GET, req_url = js ''/api/repos/'' @ repoId, req_data = None,
      req_responseType = ResponseJson\<rparr>"
| "request_of (DeleteRepository repoId) =
     \<lparr>req_method = DELETE, req_url = js ''/api/repos/'' @ repoId, req_data = None,
      req_responseType = ResponseJson\<rparr>"
| "request_of (GetDocumentation repoId) =
     \<lparr>req_method = GET, req_url = js ''/api/docs/'' @ repoId, req_data = None,
      req_responseType = ResponseJson\<rparr>"
| "request_of (GetDocumentationVersions repoId) =
     \<lparr>req_method = GET, req_url = js ''/api/docs/'' @ repoId @ js ''/versions'',
      req_data = None, req_responseType = ResponseJson\<rparr>"
| "request_of (ExportMarkdown repoId) =
     \<lparr>req_method = GET, req_url = js ''/api/docs/'' @ repoId @ js ''/export/markdown'',
      req_data = None, req_responseType = ResponseBlob\<rparr>"
| "request_of (ExportJSON repoId) =
     \<lparr>req_method = GET, req_url = js ''/api/docs/'' @ repoId @ js ''/export/json'',
      req_data = None, req_responseType = ResponseJson\<rparr>"
| "request_of GetMonitoringJobs =
     \<lparr>req_method = GET, req_url = js ''/api/monitoring/jobs'', req_data = None,
      req_responseType = ResponseJson\<rparr>"

text \<open>
  A request changes the server's state only when its method is not the safe method
  GET; that is all the client's code says about the effect of a call.
\<close>

definition mutating :: "api_call \<Rightarrow> bool" where
  "mutating c \<longleftrightarrow> req_method (request_of c) \<noteq> GET"

text \<open>One call of every exported function, for a repository id and a request body.\<close>

definition api_surface :: "js_string \<Rightarrow> RepositoryCreate \<Rightarrow> api_call list" where
  "api_surface repoId d =
     [AnalyzeRepository d, GetRepositories, GetRepository repoId, DeleteRepository repoId,
      GetDocumentation repoId, GetDocumentationVersions repoId, ExportMarkdown repoId,
      ExportJSON repoId, GetMonitoringJobs]"

text \<open>
  The operations that the specification lists as the exceptions to read-only access,
  as calls of the client: repository create and manual trigger are the analysis
  request, repository delete is the delete request, job listing is the jobs request.
\<close>

definition spec_mutating_operation :: "api_call \<Rightarrow> bool" where
  "spec_mutating_operation c \<longleftrightarrow>
     (case c of AnalyzeRepository d \<Rightarrow> True | DeleteRepository r \<Rightarrow> True
      | GetMonitoringJobs \<Rightarrow> True | _ \<Rightarrow> False)"

text \<open>
  The names the module \<open>services/api\<close> exports (\<open>default\<close> is the axios
  instance), and of these the functions that take a repository id, each with the
  request it sends. \<open>exportDOCX\<close> is not among them.
\<close>

definition api_exports :: "string list" where
  "api_exports =
     [''analyzeRepository'', ''getRepositories'', ''getRepository'', ''deleteRepository'',
      ''getDocumentation'', ''getDocumentationVersions'', ''exportMarkdown'', ''exportJSON'',
      ''getMonitoringJobs'', ''default'']"

definition api_module :: "(string \<times> (js_string \<Rightarrow> axios_request)) list" where
  "api_module =
     [(''getRepository'', \<lambda>repoId. request_of (GetRepository repoId)),
      (''deleteRepository'', \<lambda>repoId. request_of (DeleteRepository repoId)),
      (''getDocumentation'', \<lambda>repoId. request_of (GetDocumentation repoId)),
      (''getDocumentationVersions'', \<lambda>repoId. request_of (GetDocumentationVersions repoId)),
      (''exportMarkdown'', \<lambda>repoId. request_of (ExportMarkdown repoId)),
      (''exportJSON'', \<lambda>repoId. request_of (ExportJSON repoId))]"


section \<open>components/DocumentationViewer.tsx: the export handlers\<close>

text \<open>
  The viewer imports \<open>exportMarkdown\<close>, \<open>exportJSON\<close> and \<open>exportDOCX\<close> from
  \<open>services/api\<close>. Under a loader that binds a name the module does not export to
  \<open>undefined\<close>, calling it throws (the binding is not a function), which the handler's
  \<open>catch\<close> turns into an alert; this is the case modelled here, the one in which the
  viewer runs at all. A strict ES-module linker and the TypeScript compiler refuse the
  import itself, and then the viewer does not load and no handler runs. A handler ends
  with a download of the received bytes or with an alert.
\<close>

datatype 'b export_result = Download js_string 'b | Alert js_string

text \<open>
  The names the viewer's import statement takes from \<open>services/api\<close>, and whether a
  list of imported names resolves: a strict linker loads the importing module only if
  the imported module exports every one of them.
\<close>

definition DocumentationViewer_imports :: "string list" where
  "DocumentationViewer_imports =
     [''getDocumentation'', ''getRepository'', ''exportMarkdown'', ''exportJSON'', ''exportDOCX'']"

definition imports_resolve :: "string list \<Rightarrow> bool" where
  "imports_resolve names \<longleftrightarrow> list_all (\<lambda>n. n \<in> set api_exports) names"

definition call_import ::
  "string \<Rightarrow> js_string \<Rightarrow> (axios_request \<Rightarrow> 'b promise) \<Rightarrow> 'b promise" where
  "call_import fname repoId http =
     (case map_of api_module fname of
        None \<Rightarrow> Rejected \<lparr>err_detail = None, err_message = Some (js fname @ js '' is not a function'')\<rparr>
      | Some f \<Rightarrow> http (f repoId))"

definition download_name :: "js_string option \<Rightarrow> string \<Rightarrow> js_string" where
  "download_name repo_name ext =
     js_or_else repo_name (js ''documentation'') @ js ext"

definition handleExportMarkdown ::
  "(axios_request \<Rightarrow> 'b promise) \<Rightarrow> js_string option \<Rightarrow> js_string \<Rightarrow> 'b export_result" where
  "handleExportMarkdown http repo_name repoId =
     (case call_import ''exportMarkdown'' repoId http of
        Resolved blob \<Rightarrow> Download (download_name repo_name ''.md'') blob
      | Rejected e \<Rightarrow> Alert (js ''Failed to export Markdown''))"

text \<open>
  \<open>handleExportJSON\<close> serialises the received value itself
  (\<open>JSON.stringify(data, null, 2)\<close>); the serialiser is the parameter \<open>stringify\<close>.
\<close>

definition handleExportJSON ::
  "(axios_request \<Rightarrow> 'a promise) \<Rightarrow> ('a \<Rightarrow> 'b) \<Rightarrow> js_string option \<Rightarrow> js_string
     \<Rightarrow> 'b export_result" where
  "handleExportJSON http stringify repo_name repoId =
     (case call_import ''exportJSON'' repoId http of
        Resolved data \<Rightarrow> Download (download_name repo_name ''.json'') (stringify data)
      | Rejected e \<Rightarrow> Alert (js ''Failed to export JSON''))"

definition handleExportDOCX ::
  "(axios_request \<Rightarrow> 'b promise) \<Rightarrow> js_string option \<Rightarrow> js_string \<Rightarrow> 'b export_result" where
  "handleExportDOCX http repo_name repoId =
     (case call_import ''exportDOCX'' repoId http of
        Resolved blob \<Rightarrow> Download (download_name repo_name ''.docx'') blob
      | Rejected e \<Rightarrow> Alert (js ''Failed to export DOCX''))"


section \<open>store/appStore.ts: the application store\<close>

record AppState =
  repositories :: "Repository list"
  currentRepo :: "Repository option"
  currentDoc :: "Documentation option"
  isLoading :: bool
  error :: "js_string option"

text \<open>
  Zustand's \<open>set(partial)\<close> merges the keys that \<open>partial\<close> has into the state and
  keeps the others. A partial state names each key or leaves it out (\<open>None\<close>); a key
  it names may hold \<open>null\<close> (\<open>Some None\<close>).
\<close>

record AppStatePartial =
  p_repositories :: "Repository list option"
  p_currentRepo :: "Repository option option"
  p_currentDoc :: "Documentation option option"
  p_isLoading :: "bool option"
  p_error :: "js_string option option"

definition no_keys :: AppStatePartial where
  "no_keys = \<lparr>p_repositories = None, p_currentRepo = None, p_currentDoc = None,
              p_isLoading = None, p_error = None\<rparr>"

definition zustand_set :: "AppStatePartial \<Rightarrow> AppState \<Rightarrow> AppState" where
  "zustand_set p s =
     \<lparr>repositories = (case p_repositories p of Some v \<Rightarrow> v | None \<Rightarrow> repositories s),
      currentRepo = (case p_currentRepo p of Some v \<Rightarrow> v | None \<Rightarrow> currentRepo s),
      currentDoc = (case p_currentDoc p of Some v \<Rightarrow> v | None \<Rightarrow> currentDoc s),
      isLoading = (case p_isLoading p of Some v \<Rightarrow> v | None \<Rightarrow> isLoading s),
      error = (case p_error p of Some v \<Rightarrow> v | None \<Rightarrow> error s)\<rparr>"

definition useAppStore_initial :: AppState where
  "useAppStore_initial =
     \<lparr>repositories = [], currentRepo = None, currentDoc = None, isLoading = False,
      error = None\<rparr>"

definition setRepositories :: "Repository list \<Rightarrow> AppState \<Rightarrow> AppState" where
  "setRepositories repos = zustand_set (no_keys\<lparr>p_repositories := Some repos\<rparr>)"

definition setCurrentRepo :: "Repository option \<Rightarrow> AppState \<Rightarrow> AppState" where
  "setCurrentRepo repo = zustand_set (no_keys\<lparr>p_currentRepo := Some repo\<rparr>)"

definition setCurrentDoc :: "Documentation option \<Rightarrow> AppState \<Rightarrow> AppState" where
  "setCurrentDoc doc = zustand_set (no_keys\<lparr>p_currentDoc := Some doc\<rparr>)"

definition setLoading :: "bool \<Rightarrow> AppState \<Rightarrow> AppState" where
  "setLoading loading = zustand_set (no_keys\<lparr>p_isLoading := Some loading\<rparr>)"

definition setError :: "js_string option \<Rightarrow> AppState \<Rightarrow> AppState" where
  "setError e = zustand_set (no_keys\<lparr>p_error := Some e\<rparr>)"

definition clearError :: "AppState \<Rightarrow> AppState" where
  "clearError = zustand_set (no_keys\<lparr>p_error := Some None\<rparr>)"


section \<open>components/RepoUpload.tsx: submitting the form\<close>

record upload_form =
  url :: js_string
  authToken :: js_string
  branch :: js_string
  isSubmitting :: bool
  result :: "(bool \<times> js_string) option"

definition RepoUpload_initial :: upload_form where
  "RepoUpload_initial =
     \<lparr>url = [], authToken = [], branch = js ''main'', isSubmitting = False, result = None\<rparr>"

text \<open>
  What a call of \<open>handleSubmit\<close> leaves behind: the component's state, the store,
  the analysis requests it sent, and whether it scheduled the redirect to the dashboard.
\<close>

record submit_outcome =
  out_form :: upload_form
  out_store :: AppState
  out_requests :: "RepositoryCreate list"
  out_redirect :: bool

definition analyze_data :: "upload_form \<Rightarrow> RepositoryCreate" where
  "analyze_data f =
     \<lparr>rc_url = trim (url f),
      rc_auth_token = js_or (Some (trim (authToken f))) None,
      rc_branch = Some (js_or_else (Some (trim (branch f))) (js ''main'')),
      rc_monitoring_enabled = Some True\<rparr>"

definition handleSubmit ::
  "(axios_request \<Rightarrow> AnalysisResult promise) \<Rightarrow> upload_form \<Rightarrow> AppState \<Rightarrow> submit_outcome" where
  "handleSubmit http f st =
     (if trim (url f) = [] then
        \<lparr>out_form = f, out_store = setError (Some (js ''Please enter a repository URL'')) st,
         out_requests = [], out_redirect = False\<rparr>
      else
        let f1 = f\<lparr>isSubmitting := True, result := None\<rparr>;
            st1 = setError None st;
            d = analyze_data f
        in case http (request_of (AnalyzeRepository d)) of
             Resolved response \<Rightarrow>
               (if ar_success response then
                  \<lparr>out_form = f1\<lparr>result := Some (True,
                        js ''Analysis started! Repository ID: '' @ ar_repo_id response),
                      url := [], authToken := [], branch := js ''main'',
                      isSubmitting := False\<rparr>,
                   out_store = st1, out_requests = [d], out_redirect = True\<rparr>
                else
                  \<lparr>out_form = f1\<lparr>result := Some (False,
                        js_or_else (ar_error response) (js ''Analysis failed'')),
                      isSubmitting := False\<rparr>,
                   out_store = st1, out_requests = [d], out_redirect = False\<rparr>)
           | Rejected e \<Rightarrow>
               \<lparr>out_form = f1\<lparr>result := Some (False,
                     js_or_else (js_or (err_detail e) (err_message e))
                       (js ''Failed to start analysis'')),
                   isSubmitting := False\<rparr>,
                out_store = st1, out_requests = [d], out_redirect = False\<rparr>)"


text \<open>A backend that cannot be reached: every request is rejected.\<close>

definition offline :: "axios_request \<Rightarrow> AnalysisResult promise" where
  "offline r = Rejected \<lparr>err_detail = None, err_message = Some (js ''Network Error'')\<rparr>"


section \<open>The database schema: the tables\<close>

text \<open>
  A UUID is an opaque key, a timestamp a point on a clock, a JSONB value an opaque
  document. \<open>INTEGER\<close> is PostgreSQL's 32-bit signed integer: a value outside its
  range is refused with an error, it does not wrap.
\<close>

type_synonym uuid = nat
type_synonym sql_text = string
type_synonym timestamp = nat
type_synonym jsonb = string

definition int4 :: "int \<Rightarrow> bool" where
  "int4 i \<longleftrightarrow> - 2147483648 \<le> i \<and> i \<le> 2147483647"

record repository_row =
  r_id :: uuid
  r_url :: sql_text
  r_name :: "sql_text option"
  r_description :: "sql_text option"
  r_status :: sql_text
  r_last_commit_hash :: "sql_text option"
  r_branch :: sql_text
  r_monitoring_enabled :: bool
  r_webhook_id :: "sql_text option"
  r_error_message :: "sql_text option"
  r_last_analyzed_at :: "timestamp option"
  r_created_at :: timestamp
  r_updated_at :: "timestamp option"

record documentation_row =
  d_id :: uuid
  d_repo_id :: uuid
  d_version :: int
  d_commit_hash :: sql_text
  d_content :: jsonb
  d_file_count :: int
  d_lines_of_code :: int
  d_created_at :: timestamp

record monitoring_job_row =
  j_id :: uuid
  j_repo_id :: uuid
  j_status :: sql_text
  j_trigger_type :: sql_text
  j_changes_detected :: "jsonb option"
  j_error_message :: "sql_text option"
  j_retry_count :: int
  j_started_at :: "timestamp option"
  j_completed_at :: "timestamp option"
  j_created_at :: timestamp

record database =
  repositories_tbl :: "repository_row list"
  documentation_tbl :: "documentation_row list"
  monitoring_jobs_tbl :: "monitoring_job_row list"

definition empty_database :: database where
  "empty_database = \<lparr>repositories_tbl = [], documentation_tbl = [], monitoring_jobs_tbl = []\<rparr>"

text \<open>The two \<open>CHECK\<close> constraints.\<close>

definition repositories_status_check :: "sql_text \<Rightarrow> bool" where
  "repositories_status_check st \<longleftrightarrow>
     st = ''pending'' \<or> st = ''cloning'' \<or> st = ''analyzing'' \<or> st = ''generating_docs'' \<or>
     st = ''completed'' \<or> st = ''failed''"

definition monitoring_jobs_status_check :: "sql_text \<Rightarrow> bool" where
  "monitoring_jobs_status_check st \<longleftrightarrow>
     st = ''pending'' \<or> st = ''running'' \<or> st = ''completed'' \<or> st = ''failed''"

datatype sql_error =
  unique_violation | foreign_key_violation | check_violation | numeric_value_out_of_range

text \<open>
  The values of an \<open>INSERT\<close>. A column that is nullable or has a \<open>DEFAULT\<close> may be
  left out (\<open>None\<close>); the key is the given value or the one \<open>uuid_generate_v4()\<close>
  produced. A \<open>NOT NULL\<close> column without a default always has a value.
\<close>

record repository_insert =
  ri_id :: uuid
  ri_url :: sql_text
  ri_name :: "sql_text option"
  ri_description :: "sql_text option"
  ri_status :: sql_text
  ri_last_commit_hash :: "sql_text option"
  ri_branch :: "sql_text option"
  ri_monitoring_enabled :: "bool option"
  ri_webhook_id :: "sql_text option"
  ri_error_message :: "sql_text option"
  ri_last_analyzed_at :: "timestamp option"
  ri_created_at :: "timestamp option"
  ri_updated_at :: "timestamp option"

record documentation_insert =
  di_id :: uuid
  di_repo_id :: uuid
  di_version :: "int option"
  di_commit_hash :: sql_text
  di_content :: jsonb
  di_file_count :: "int option"
  di_lines_of_code :: "int option"
  di_created_at :: "timestamp option"

record monitoring_job_insert =
  ji_id :: uuid
  ji_repo_id :: uuid
  ji_status :: sql_text
  ji_trigger_type :: sql_text
  ji_changes_detected :: "jsonb option"
  ji_error_message :: "sql_text option"
  ji_retry_count :: "int option"
  ji_started_at :: "timestamp option"
  ji_completed_at :: "timestamp option"
  ji_created_at :: "timestamp option"

text \<open>The row an \<open>INSERT\<close> builds at time \<open>now\<close>: the defaults fill what is left out.\<close>

definition repository_of_insert :: "timestamp \<Rightarrow> repository_insert \<Rightarrow> repository_row" where
  "repository_of_insert now v =
     \<lparr>r_id = ri_id v, r_url = ri_url v, r_name = ri_name v, r_description = ri_description v,
      r_status = ri_status v, r_last_commit_hash = ri_last_commit_hash v,
      r_branch = (case ri_branch v of None \<Rightarrow> ''main'' | Some b \<Rightarrow> b),
      r_monitoring_enabled = (case ri_monitoring_enabled v of None \<Rightarrow> True | Some m \<Rightarrow> m),
      r_webhook_id = ri_webhook_id v, r_error_message = ri_error_message v,
      r_last_analyzed_at = ri_last_analyzed_at v,
      r_created_at = (case ri_created_at v of None \<Rightarrow> now | Some t \<Rightarrow> t),
      r_updated_at = ri_updated_at v\<rparr>"

definition documentation_of_insert :: "timestamp \<Rightarrow> documentation_insert \<Rightarrow> documentation_row" where
  "documentation_of_insert now v =
     \<lparr>d_id = di_id v, d_repo_id = di_repo_id v,
      d_version = (case di_version v of None \<Rightarrow> 1 | Some n \<Rightarrow> n),
      d_commit_hash = di_commit_hash v, d_content = di_content v,
      d_file_count = (case di_file_count v of None \<Rightarrow> 0 | Some n \<Rightarrow> n),
      d_lines_of_code = (case di_lines_of_code v of None \<Rightarrow> 0 | Some n \<Rightarrow> n),
      d_created_at = (case di_created_at v of None \<Rightarrow> now | Some t \<Rightarrow> t)\<rparr>"

definition monitoring_job_of_insert ::
  "timestamp \<Rightarrow> monitoring_job_insert \<Rightarrow> monitoring_job_row" where
  "monitoring_job_of_insert now v =
     \<lparr>j_id = ji_id v, j_repo_id = ji_repo_id v, j_status = ji_status v,
      j_trigger_type = ji_trigger_type v, j_changes_detected = ji_changes_detected v,
      j_error_message = ji_error_message v,
      j_retry_count = (case ji_retry_count v of None \<Rightarrow> 0 | Some n \<Rightarrow> n),
      j_started_at = ji_started_at v, j_completed_at = ji_completed_at v,
      j_created_at = (case ji_created_at v of None \<Rightarrow> now | Some t \<Rightarrow> t)\<rparr>"

text \<open>
  \<open>INSERT\<close>: the row is added when its integers are in range, its \<open>CHECK\<close> holds,
  its primary key is new and the repository it references exists. No constraint of
  \<open>documentation\<close> compares \<open>(repo_id, version)\<close> with the rows already there.
\<close>

definition insert_repository ::
  "timestamp \<Rightarrow> repository_insert \<Rightarrow> database \<Rightarrow> sql_error + database" where
  "insert_repository now v db =
     (let row = repository_of_insert now v in
      if \<not> repositories_status_check (r_status row) then Inl check_violation
      else if r_id row \<in> set (map r_id (repositories_tbl db)) then Inl unique_violation
      else Inr (db\<lparr>repositories_tbl := repositories_tbl db @ [row]\<rparr>))"

definition insert_documentation ::
  "timestamp \<Rightarrow> documentation_insert \<Rightarrow> database \<Rightarrow> sql_error + database" where
  "insert_documentation now v db =
     (let row = documentation_of_insert now v in
      if \<not> (int4 (d_version row) \<and> int4 (d_file_count row) \<and> int4 (d_lines_of_code row))
      then Inl numeric_value_out_of_range
      else if d_id row \<in> set (map d_id (documentation_tbl db)) then Inl unique_violation
      else if d_repo_id row \<notin> set (map r_id (repositories_tbl db)) then Inl foreign_key_violation
      else Inr (db\<lparr>documentation_tbl := documentation_tbl db @ [row]\<rparr>))"

definition insert_monitoring_job ::
  "timestamp \<Rightarrow> monitoring_job_insert \<Rightarrow> database \<Rightarrow> sql_error + database" where
  "insert_monitoring_job now v db =
     (let row = monitoring_job_of_insert now v in
      if \<not> int4 (j_retry_count row) then Inl numeric_value_out_of_range
      else if \<not> monitoring_jobs_status_check (j_status row) then Inl check_violation
      else if j_id row \<in> set (map j_id (monitoring_jobs_tbl db)) then Inl unique_violation
      else if j_repo_id row \<notin> set (map r_id (repositories_tbl db)) then Inl foreign_key_violation
      else Inr (db\<lparr>monitoring_jobs_tbl := monitoring_jobs_tbl db @ [row]\<rparr>))"

text \<open>
  \<open>UPDATE ... SET ... WHERE\<close> on the non-key columns: \<open>f\<close> is the assignment, \<open>P\<close>
  the condition. The rows are taken in order; for a row the statement changes the new
  values are computed first (an integer out of range is an error there) and the
  \<open>CHECK\<close> is tested on them. The statement fails as a whole with the error of the
  first row that has one.
\<close>

definition update_repositories ::
  "(repository_row \<Rightarrow> bool) \<Rightarrow> (repository_row \<Rightarrow> repository_row) \<Rightarrow> database
     \<Rightarrow> sql_error + database" where
  "update_repositories P f db =
     (if list_all (\<lambda>r. P r \<longrightarrow> repositories_status_check (r_status (f r))) (repositories_tbl db)
      then Inr (db\<lparr>repositories_tbl :=
                  map (\<lambda>r. if P r then (f r)\<lparr>r_id := r_id r\<rparr> else r) (repositories_tbl db)\<rparr>)
      else Inl check_violation)"

definition update_monitoring_jobs ::
  "(monitoring_job_row \<Rightarrow> bool) \<Rightarrow> (monitoring_job_row \<Rightarrow> monitoring_job_row) \<Rightarrow> database
     \<Rightarrow> sql_error + database" where
  "update_monitoring_jobs P f db =
     (case find (\<lambda>j. P j \<and> \<not> (int4 (j_retry_count (f j)) \<and>
                                  monitoring_jobs_status_check (j_status (f j))))
             (monitoring_jobs_tbl db) of
        Some j \<Rightarrow>
          if \<not> int4 (j_retry_count (f j)) then Inl numeric_value_out_of_range
          else Inl check_violation
      | None \<Rightarrow>
          Inr (db\<lparr>monitoring_jobs_tbl :=
                 map (\<lambda>j. if P j then (f j)\<lparr>j_id := j_id j, j_repo_id := j_repo_id j\<rparr> else j)
                   (monitoring_jobs_tbl db)\<rparr>))"

text \<open>
  \<open>DELETE FROM repositories WHERE id = rid\<close>: both referencing tables declare
  \<open>ON DELETE CASCADE\<close>, so their rows for the repository go with it.
\<close>

definition delete_repository :: "uuid \<Rightarrow> database \<Rightarrow> database" where
  "delete_repository rid db =
     \<lparr>repositories_tbl = filter (\<lambda>r. r_id r \<noteq> rid) (repositories_tbl db),
      documentation_tbl = filter (\<lambda>d. d_repo_id d \<noteq> rid) (documentation_tbl db),
      monitoring_jobs_tbl = filter (\<lambda>j. j_repo_id j \<noteq> rid) (monitoring_jobs_tbl db)\<rparr>"

text \<open>
  \<open>DELETE FROM documentation WHERE id = did\<close>: no table references \<open>documentation\<close>,
  and no constraint or trigger of the schema refuses the statement (the row level
  security policy of the table allows all operations).
\<close>

definition delete_documentation :: "uuid \<Rightarrow> database \<Rightarrow> database" where
  "delete_documentation did db =
     db\<lparr>documentation_tbl := filter (\<lambda>d. d_id d \<noteq> did) (documentation_tbl db)\<rparr>"

definition find_repository :: "database \<Rightarrow> uuid \<Rightarrow> repository_row option" where
  "find_repository db rid = find (\<lambda>r. r_id r = rid) (repositories_tbl db)"

text \<open>An insert that names only the required columns and the branch.\<close>

definition new_repository :: "uuid \<Rightarrow> sql_text \<Rightarrow> sql_text option \<Rightarrow> repository_insert" where
  "new_repository rid u b =
     \<lparr>ri_id = rid, ri_url = u, ri_name = None, ri_description = None, ri_status = ''pending'',
      ri_last_commit_hash = None, ri_branch = b, ri_monitoring_enabled = None,
      ri_webhook_id = None, ri_error_message = None, ri_last_analyzed_at = None,
      ri_created_at = None, ri_updated_at = None\<rparr>"


section \<open>The Document Store\<close>

text \<open>The version numbers a repository has, in the order its rows were inserted.\<close>

definition versions_of :: "database \<Rightarrow> uuid \<Rightarrow> int list" where
  "versions_of db rid = map d_version (filter (\<lambda>d. d_repo_id d = rid) (documentation_tbl db))"

text \<open>
  Modelled from the spec: the backend's Document Store is not among the sources. Section 4.1: the next version number is \<open>max(existing versions for repoId) + 1\<close>, 1 if none
  exist.
\<close>

definition next_version :: "database \<Rightarrow> uuid \<Rightarrow> int" where
  "next_version db rid = (case versions_of db rid of [] \<Rightarrow> 1 | v # vs \<Rightarrow> fold max vs v + 1)"

text \<open>
  Modelled from the spec: \<open>append(repoId, content, commitHash, fileCount, linesOfCode)\<close>
  of section 4.1 reads the maximum and persists the new version with the content; here
  as one step on the database, which is what a call does when no other writer comes in
  between (the concurrent writers below take it apart). The schema has no unique
  constraint on \<open>(repo_id, version)\<close>, so the store is the spec's first alternative (a
  repository-scoped lock), not the retry on a conflict. \<open>did\<close> is the new row's key and
  \<open>now\<close> the time of the insert.
\<close>

definition append_version ::
  "uuid \<Rightarrow> timestamp \<Rightarrow> uuid \<Rightarrow> jsonb \<Rightarrow> sql_text \<Rightarrow> int \<Rightarrow> int \<Rightarrow> database
     \<Rightarrow> sql_error + documentation_row \<times> database" where
  "append_version did now repoId content commitHash fileCount linesOfCode db =
     (let v = \<lparr>di_id = did, di_repo_id = repoId, di_version = Some (next_version db repoId),
               di_commit_hash = commitHash, di_content = content,
               di_file_count = Some fileCount, di_lines_of_code = Some linesOfCode,
               di_created_at = None\<rparr>
      in case insert_documentation now v db of
           Inl e \<Rightarrow> Inl e
         | Inr db' \<Rightarrow> Inr (documentation_of_insert now v, db'))"

text \<open>
  Modelled from the spec: one call of \<open>append\<close>: its arguments, with the key of the new
  row and the time of the insert.
\<close>

record append_call =
  ac_repoId :: uuid
  ac_did :: uuid
  ac_now :: timestamp
  ac_content :: jsonb
  ac_commitHash :: sql_text
  ac_fileCount :: int
  ac_linesOfCode :: int

text \<open>
  Modelled from the spec: concurrent writers under the repository-scoped lock of
  section 4.1. A writer that has been called waits for the lock of the call's
  repository, takes it when it is free, reads the next number from the table, persists
  the version with the number it has read and gives the lock back. Where a writer
  stands, with the number it has read, is its own; the table and the locks are shared.
\<close>

datatype writer_pc =
    Idle
  | Waiting append_call
  | Holding append_call
  | Computed append_call int
  | Done append_call

text \<open>
  Modelled from the spec: the state the writers share and their own: the table, the
  holder of each repository's lock, and where each writer stands.
\<close>

record store_state =
  st_db :: database
  st_lock :: "uuid \<Rightarrow> nat option"
  st_pc :: "nat \<Rightarrow> writer_pc"

text \<open>
  Modelled from the spec: what the scheduler of the writers can do: hand a call to the
  writer \<open>w\<close>, or let the writer \<open>w\<close> take its next step.
\<close>

datatype writer_action =
    Call nat append_call
  | Advance nat

text \<open>
  Modelled from the spec: what a step does. A call is taken by an idle writer only. The
  lock is tested where it is taken and nowhere else: a waiting writer stays where it is
  while another writer holds the lock of its repository. The number is read in one step
  and the row is inserted in a later one, so the steps of other writers may come in
  between. An insert that the table refuses ends the call without a row.
\<close>

fun writer_step :: "writer_action \<Rightarrow> store_state \<Rightarrow> store_state" where
  "writer_step (Call w c) s =
     (case st_pc s w of
        Idle \<Rightarrow> s\<lparr>st_pc := (st_pc s)(w := Waiting c)\<rparr>
      | _ \<Rightarrow> s)"
| "writer_step (Advance w) s =
     (case st_pc s w of
        Idle \<Rightarrow> s
      | Waiting c \<Rightarrow>
          if st_lock s (ac_repoId c) = None
          then s\<lparr>st_lock := (st_lock s)(ac_repoId c := Some w),
                 st_pc := (st_pc s)(w := Holding c)\<rparr>
          else s
      | Holding c \<Rightarrow>
          s\<lparr>st_pc := (st_pc s)(w := Computed c (next_version (st_db s) (ac_repoId c)))\<rparr>
      | Computed c n \<Rightarrow>
          (case insert_documentation (ac_now c)
                  \<lparr>di_id = ac_did c, di_repo_id = ac_repoId c, di_version = Some n,
                   di_commit_hash = ac_commitHash c, di_content = ac_content c,
                   di_file_count = Some (ac_fileCount c),
                   di_lines_of_code = Some (ac_linesOfCode c), di_created_at = None\<rparr>
                  (st_db s) of
             Inl e \<Rightarrow> s\<lparr>st_pc := (st_pc s)(w := Done c)\<rparr>
           | Inr db' \<Rightarrow> s\<lparr>st_db := db', st_pc := (st_pc s)(w := Done c)\<rparr>)
      | Done c \<Rightarrow>
          s\<lparr>st_lock := (st_lock s)(ac_repoId c := None), st_pc := (st_pc s)(w := Idle)\<rparr>)"

text \<open>Modelled from the spec: a store in which no lock is held and every writer is idle.\<close>

definition idle_store :: "database \<Rightarrow> store_state" where
  "idle_store db = \<lparr>st_db = db, st_lock = (\<lambda>repoId. None), st_pc = (\<lambda>w. Idle)\<rparr>"

text \<open>
  Modelled from the spec: the store and its table after the given steps, taken in the
  given order from an idle store.
\<close>

definition store_after :: "writer_action list \<Rightarrow> database \<Rightarrow> store_state" where
  "store_after steps db = fold writer_step steps (idle_store db)"

definition run_writers :: "writer_action list \<Rightarrow> database \<Rightarrow> database" where
  "run_writers steps db = st_db (store_after steps db)"

text \<open>
  Modelled from the spec: the repository in whose critical section a writer is:
  between taking the lock and giving it back.
\<close>

definition in_section :: "writer_pc \<Rightarrow> uuid option" where
  "in_section pc =
     (case pc of
        Idle \<Rightarrow> None
      | Waiting c \<Rightarrow> None
      | Holding c \<Rightarrow> Some (ac_repoId c)
      | Computed c n \<Rightarrow> Some (ac_repoId c)
      | Done c \<Rightarrow> Some (ac_repoId c))"


section \<open>The Repository Registry and its status machine\<close>

text \<open>Modelled from the spec: the events that label the transitions of section 4.2.\<close>

datatype pipeline_event =
    job_starts | clone_succeeds | clone_fails | extraction_succeeds | extraction_fails
  | content_produced | generation_fails

text \<open>
  Modelled from the spec: the transition table of section 4.2, on the status texts of
  the schema. \<open>None\<close>: the table has no such transition.
\<close>

definition transition :: "sql_text \<Rightarrow> pipeline_event \<Rightarrow> sql_text option" where
  "transition st ev =
     (if st = ''pending'' \<and> ev = job_starts then Some ''cloning''
      else if st = ''cloning'' \<and> ev = clone_succeeds then Some ''analyzing''
      else if st = ''cloning'' \<and> ev = clone_fails then Some ''failed''
      else if st = ''analyzing'' \<and> ev = extraction_succeeds then Some ''generating_docs''
      else if st = ''analyzing'' \<and> ev = extraction_fails then Some ''failed''
      else if st = ''generating_docs'' \<and> ev = content_produced then Some ''completed''
      else if st = ''generating_docs'' \<and> ev = generation_fails then Some ''failed''
      else if st = ''completed'' \<and> ev = job_starts then Some ''cloning''
      else if st = ''failed'' \<and> ev = job_starts then Some ''cloning''
      else None)"

text \<open>
  Modelled from the spec: the registry moves a repository through one transition of
  the table, with the assignments that go with it, as one conditional update on the
  row's current status (section 4.2, and section 5: every status change goes through
  the per-repository lock). \<open>None\<close>: no such repository, or no such transition.
\<close>

definition apply_transition ::
  "pipeline_event \<Rightarrow> (repository_row \<Rightarrow> repository_row) \<Rightarrow> uuid \<Rightarrow> database
     \<Rightarrow> database option" where
  "apply_transition ev assign rid db =
     (case find_repository db rid of
        None \<Rightarrow> None
      | Some r \<Rightarrow>
          (case transition (r_status r) ev of
             None \<Rightarrow> None
           | Some st \<Rightarrow>
               (case update_repositories (\<lambda>x. r_id x = rid \<and> r_status x = r_status r)
                       (\<lambda>x. (assign x)\<lparr>r_status := st\<rparr>) db of
                  Inl e \<Rightarrow> None
                | Inr db' \<Rightarrow> Some db')))"


section \<open>The Job Scheduler\<close>

text \<open>
  Modelled from the spec: the configured retry maximum (section 4.3) and whether an
  unchanged poll skips the regeneration (section 4.4).
\<close>

record policy =
  max_retries :: int
  skip_unchanged_polls :: bool

text \<open>Modelled from the spec: the policy defaults of sections 4.3 and 4.4.\<close>

definition default_policy :: policy where
  "default_policy = \<lparr>max_retries = 3, skip_unchanged_polls = True\<rparr>"

text \<open>
  Modelled from the spec: the job of a repository that is \<open>pending\<close> or \<open>running\<close>, if
  there is one (section 4.3).
\<close>

definition active_job :: "database \<Rightarrow> uuid \<Rightarrow> monitoring_job_row option" where
  "active_job db rid =
     find (\<lambda>j. j_repo_id j = rid \<and> (j_status j = ''pending'' \<or> j_status j = ''running''))
       (monitoring_jobs_tbl db)"

text \<open>
  Modelled from the spec: \<open>enqueue(repoId, triggerType, changeSummary?)\<close> of section 4.3
  returns the existing job and changes nothing when the repository has a pending or
  running job, and inserts a pending job otherwise. \<open>jid\<close> is the new row's key.
\<close>

definition enqueue ::
  "uuid \<Rightarrow> timestamp \<Rightarrow> uuid \<Rightarrow> sql_text \<Rightarrow> jsonb option \<Rightarrow> database
     \<Rightarrow> monitoring_job_row option \<times> database" where
  "enqueue jid now repoId triggerType changeSummary db =
     (case active_job db repoId of
        Some j \<Rightarrow> (Some j, db)
      | None \<Rightarrow>
          (let v = \<lparr>ji_id = jid, ji_repo_id = repoId, ji_status = ''pending'',
                    ji_trigger_type = triggerType, ji_changes_detected = changeSummary,
                    ji_error_message = None, ji_retry_count = None, ji_started_at = None,
                    ji_completed_at = None, ji_created_at = None\<rparr>
           in case insert_monitoring_job now v db of
                Inl e \<Rightarrow> (None, db)
              | Inr db' \<Rightarrow> (Some (monitoring_job_of_insert now v), db')))"

text \<open>Modelled from the spec: the repository has a running job (section 4.3).\<close>

definition has_running :: "database \<Rightarrow> uuid \<Rightarrow> bool" where
  "has_running db rid =
     list_ex (\<lambda>j. j_repo_id j = rid \<and> j_status j = ''running'') (monitoring_jobs_tbl db)"

text \<open>
  Modelled from the spec: first in, first out by creation time (section 4.3); of two
  jobs created at the same time the earlier row wins.
\<close>

fun oldest :: "monitoring_job_row list \<Rightarrow> monitoring_job_row option" where
  "oldest [] = None"
| "oldest (j # rest) =
     (case oldest rest of
        None \<Rightarrow> Some j
      | Some k \<Rightarrow> if j_created_at j \<le> j_created_at k then Some j else Some k)"

text \<open>
  Modelled from the spec: \<open>dequeueNext()\<close> of section 4.3 selects the oldest pending job
  whose repository has no running job, marks it running and sets \<open>started_at\<close>, in one
  step (the compare-and-set under the per-repository lock).
\<close>

definition dequeueNext :: "timestamp \<Rightarrow> database \<Rightarrow> monitoring_job_row option \<times> database" where
  "dequeueNext now db =
     (case oldest (filter (\<lambda>j. j_status j = ''pending'' \<and> \<not> has_running db (j_repo_id j))
                     (monitoring_jobs_tbl db)) of
        None \<Rightarrow> (None, db)
      | Some j \<Rightarrow>
          (case update_monitoring_jobs (\<lambda>x. j_id x = j_id j)
                  (\<lambda>x. x\<lparr>j_status := ''running'', j_started_at := Some now\<rparr>) db of
             Inl e \<Rightarrow> (None, db)
           | Inr db' \<Rightarrow> (Some (j\<lparr>j_status := ''running'', j_started_at := Some now\<rparr>), db')))"

text \<open>
  Modelled from the spec: on the executor's success the running job is marked
  completed and \<open>completed_at\<close> is set (section 4.3).
\<close>

definition job_succeeded :: "uuid \<Rightarrow> timestamp \<Rightarrow> database \<Rightarrow> database" where
  "job_succeeded jid now db =
     (case update_monitoring_jobs (\<lambda>x. j_id x = jid \<and> j_status x = ''running'')
             (\<lambda>x. x\<lparr>j_status := ''completed'', j_completed_at := Some now\<rparr>) db of
        Inl e \<Rightarrow> db
      | Inr db' \<Rightarrow> db')"

text \<open>
  Modelled from the spec: on the executor's failure a job whose \<open>retry_count\<close> is below
  the maximum is resubmitted: \<open>retry_count\<close> is incremented and the job is pending again
  (section 4.3; the backoff delay has no column and is left out). Otherwise it is failed
  for good. The count is compared before the increment: \<open>retry_count\<close> increases only
  when a failed attempt is resubmitted (section 3), and a job that always fails is
  failed for good after exactly \<open>maxRetries + 1\<close> attempts (section 8).
\<close>

definition job_failed :: "policy \<Rightarrow> uuid \<Rightarrow> sql_text \<Rightarrow> timestamp \<Rightarrow> database \<Rightarrow> database" where
  "job_failed p jid msg now db =
     (case update_monitoring_jobs (\<lambda>x. j_id x = jid \<and> j_status x = ''running'')
             (\<lambda>x. if j_retry_count x < max_retries p
                  then x\<lparr>j_retry_count := j_retry_count x + 1, j_status := ''pending'',
                         j_error_message := Some msg\<rparr>
                  else x\<lparr>j_status := ''failed'', j_error_message := Some msg,
                         j_completed_at := Some now\<rparr>) db of
        Inl e \<Rightarrow> db
      | Inr db' \<Rightarrow> db')"


section \<open>The Analysis Executor and the system's steps\<close>

text \<open>
  Modelled from the spec: where a run of the executor stands (section 4.4), with what it
  has obtained so far: the commit hash, then the file and line counts, and after the
  append the hash of the persisted version.
\<close>

datatype run_stage =
    Resolving
  | Extracting sql_text
  | Generating sql_text int int
  | Persisted sql_text

text \<open>Modelled from the spec: a run of the executor, for the job that was handed to it.\<close>

record run =
  run_job :: uuid
  run_trigger :: sql_text
  run_stage :: run_stage

text \<open>
  Modelled from the spec: the whole system, the database and the run that drives each
  repository, if any (one job at a time drives a repository, section 4.2).
\<close>

record system =
  sys_db :: database
  sys_runs :: "uuid \<Rightarrow> run option"

text \<open>Modelled from the spec: the system before anything has happened.\<close>

definition initial_system :: system where
  "initial_system = \<lparr>sys_db = empty_database, sys_runs = (\<lambda>rid. None)\<rparr>"

text \<open>
  Modelled from the spec: the steps that change the persisted state (section 2's
  control flow). Each is atomic; between two of them a reader may look.
\<close>

datatype event =
    CreateAnalysisRequest uuid sql_text "sql_text option" timestamp
  | DeleteRepositoryRequest uuid
  | Enqueue uuid uuid sql_text "jsonb option" timestamp
  | DequeueNext timestamp
  | SourceResolved uuid sql_text timestamp
  | FactsExtracted uuid int int
  | ContentGenerated uuid uuid jsonb timestamp
  | StatusFlipped uuid timestamp
  | StageFailed uuid sql_text timestamp

text \<open>
  Modelled from the spec: a repository is created on the first analysis request with
  status \<open>pending\<close> (section 3).
\<close>

definition create_analysis :: "uuid \<Rightarrow> sql_text \<Rightarrow> sql_text option \<Rightarrow> timestamp \<Rightarrow> system \<Rightarrow> system" where
  "create_analysis rid u b now s =
     (case insert_repository now (new_repository rid u b) (sys_db s) of
        Inl e \<Rightarrow> s
      | Inr db' \<Rightarrow> s\<lparr>sys_db := db'\<rparr>)"

text \<open>
  Modelled from the spec: deleting a repository removes it with its versions and jobs
  (section 3) and cancels its run (section 5).
\<close>

definition delete_request :: "uuid \<Rightarrow> system \<Rightarrow> system" where
  "delete_request rid s =
     \<lparr>sys_db = delete_repository rid (sys_db s), sys_runs = (sys_runs s)(rid := None)\<rparr>"

text \<open>
  Modelled from the spec: the dequeued job is handed to the executor, whose run starts
  with the transition \<open>job starts\<close> (sections 4.3 and 4.2). Section 4.2 gives this
  transition no assignment: it changes the status and nothing else, so an
  \<open>error_message\<close> that an earlier failure has left stays in the row.
\<close>

definition dequeue_and_start :: "timestamp \<Rightarrow> system \<Rightarrow> system" where
  "dequeue_and_start now s =
     (case dequeueNext now (sys_db s) of
        (None, db) \<Rightarrow> s
      | (Some j, db1) \<Rightarrow>
          \<lparr>sys_db = (case apply_transition job_starts (\<lambda>x. x) (j_repo_id j) db1 of
                       None \<Rightarrow> db1
                     | Some db2 \<Rightarrow> db2),
           sys_runs = (sys_runs s)(j_repo_id j :=
                        Some \<lparr>run_job = j_id j, run_trigger = j_trigger_type j,
                              run_stage = Resolving\<rparr>)\<rparr>)"

text \<open>
  Modelled from the spec: a run whose resolved commit is the repository's
  \<open>last_commit_hash\<close> goes straight to \<open>completed\<close> when the trigger is a poll and the
  policy allows it (section 4.4, step 1); a transition into \<open>completed\<close> sets
  \<open>last_analyzed_at\<close> and \<open>last_commit_hash\<close> (section 4.2).
\<close>

definition short_circuit :: "uuid \<Rightarrow> sql_text \<Rightarrow> timestamp \<Rightarrow> database \<Rightarrow> database option" where
  "short_circuit rid h now db =
     (case find_repository db rid of
        None \<Rightarrow> None
      | Some r \<Rightarrow>
          if r_status r = ''cloning'' \<and> r_last_commit_hash r = Some h then
            (case update_repositories
                    (\<lambda>x. r_id x = rid \<and> r_status x = ''cloning'' \<and> r_last_commit_hash x = Some h)
                    (\<lambda>x. x\<lparr>r_status := ''completed'', r_last_analyzed_at := Some now,
                           r_last_commit_hash := Some h\<rparr>) db of
               Inl e \<Rightarrow> None
             | Inr db' \<Rightarrow> Some db')
          else None)"

text \<open>
  Modelled from the spec: stage 1 of section 4.4. The source is resolved to the commit
  \<open>h\<close>; the run short-circuits or moves on to the extraction.
\<close>

definition source_resolved :: "policy \<Rightarrow> uuid \<Rightarrow> sql_text \<Rightarrow> timestamp \<Rightarrow> system \<Rightarrow> system" where
  "source_resolved p rid h now s =
     (case sys_runs s rid of
        None \<Rightarrow> s
      | Some rn \<Rightarrow>
          (case run_stage rn of
             Resolving \<Rightarrow>
               (case (if skip_unchanged_polls p \<and> run_trigger rn = ''scheduled-poll''
                      then short_circuit rid h now (sys_db s) else None) of
                  Some db' \<Rightarrow>
                    \<lparr>sys_db = job_succeeded (run_job rn) now db',
                     sys_runs = (sys_runs s)(rid := None)\<rparr>
                | None \<Rightarrow>
                    (case apply_transition clone_succeeds (\<lambda>x. x) rid (sys_db s) of
                       None \<Rightarrow> s
                     | Some db' \<Rightarrow>
                         \<lparr>sys_db = db',
                          sys_runs = (sys_runs s)(rid := Some (rn\<lparr>run_stage := Extracting h\<rparr>))\<rparr>))
           | _ \<Rightarrow> s))"

text \<open>Modelled from the spec: stage 2 of section 4.4, the facts are extracted.\<close>

definition facts_extracted :: "uuid \<Rightarrow> int \<Rightarrow> int \<Rightarrow> system \<Rightarrow> system" where
  "facts_extracted rid fc loc s =
     (case sys_runs s rid of
        None \<Rightarrow> s
      | Some rn \<Rightarrow>
          (case run_stage rn of
             Extracting h \<Rightarrow>
               (case apply_transition extraction_succeeds (\<lambda>x. x) rid (sys_db s) of
                  None \<Rightarrow> s
                | Some db' \<Rightarrow>
                    \<lparr>sys_db = db',
                     sys_runs = (sys_runs s)(rid := Some (rn\<lparr>run_stage := Generating h fc loc\<rparr>))\<rparr>)
           | _ \<Rightarrow> s))"

text \<open>
  Modelled from the spec: stages 3 and 4 of section 4.4. The content is generated and
  persisted through the Document Store; the status is not flipped yet.
\<close>

definition content_generated :: "uuid \<Rightarrow> uuid \<Rightarrow> jsonb \<Rightarrow> timestamp \<Rightarrow> system \<Rightarrow> system" where
  "content_generated rid did content now s =
     (case sys_runs s rid of
        None \<Rightarrow> s
      | Some rn \<Rightarrow>
          (case run_stage rn of
             Generating h fc loc \<Rightarrow>
               (case append_version did now rid content h fc loc (sys_db s) of
                  Inl e \<Rightarrow> s
                | Inr (d, db') \<Rightarrow>
                    \<lparr>sys_db = db',
                     sys_runs = (sys_runs s)(rid := Some (rn\<lparr>run_stage := Persisted h\<rparr>))\<rparr>)
           | _ \<Rightarrow> s))"

text \<open>
  Modelled from the spec: after the append the status flips to \<open>completed\<close>, with
  \<open>last_analyzed_at\<close> and \<open>last_commit_hash\<close> (sections 4.2 and 4.4), and the job is
  marked completed (section 4.3).
\<close>

definition status_flipped :: "uuid \<Rightarrow> timestamp \<Rightarrow> system \<Rightarrow> system" where
  "status_flipped rid now s =
     (case sys_runs s rid of
        None \<Rightarrow> s
      | Some rn \<Rightarrow>
          (case run_stage rn of
             Persisted h \<Rightarrow>
               (case apply_transition content_produced
                       (\<lambda>x. x\<lparr>r_last_analyzed_at := Some now, r_last_commit_hash := Some h\<rparr>)
                       rid (sys_db s) of
                  None \<Rightarrow> s
                | Some db' \<Rightarrow>
                    \<lparr>sys_db = job_succeeded (run_job rn) now db',
                     sys_runs = (sys_runs s)(rid := None)\<rparr>)
           | _ \<Rightarrow> s))"

text \<open>
  Modelled from the spec: the failure transition of the stage a run is in (section 4.2);
  after the append nothing is left that can fail.
\<close>

definition failure_of :: "run_stage \<Rightarrow> pipeline_event option" where
  "failure_of st =
     (case st of Resolving \<Rightarrow> Some clone_fails | Extracting h \<Rightarrow> Some extraction_fails
      | Generating h fc loc \<Rightarrow> Some generation_fails | Persisted h \<Rightarrow> None)"

text \<open>
  Modelled from the spec: a stage fails. The status becomes \<open>failed\<close> with the cause as
  \<open>error_message\<close>, \<open>last_commit_hash\<close> and the versions stay (section 4.2), the
  remaining stages are dropped (section 4.4) and the scheduler applies its retry policy.
\<close>

definition stage_failed :: "policy \<Rightarrow> uuid \<Rightarrow> sql_text \<Rightarrow> timestamp \<Rightarrow> system \<Rightarrow> system" where
  "stage_failed p rid msg now s =
     (case sys_runs s rid of
        None \<Rightarrow> s
      | Some rn \<Rightarrow>
          (case failure_of (run_stage rn) of
             None \<Rightarrow> s
           | Some ev \<Rightarrow>
               (case apply_transition ev (\<lambda>x. x\<lparr>r_error_message := Some msg\<rparr>) rid (sys_db s) of
                  None \<Rightarrow> s
                | Some db' \<Rightarrow>
                    \<lparr>sys_db = job_failed p (run_job rn) msg now db',
                     sys_runs = (sys_runs s)(rid := None)\<rparr>)))"

text \<open>Modelled from the spec: what each step does to the system.\<close>

fun step :: "policy \<Rightarrow> event \<Rightarrow> system \<Rightarrow> system" where
  "step p (CreateAnalysisRequest rid u b now) s = create_analysis rid u b now s"
| "step p (DeleteRepositoryRequest rid) s = delete_request rid s"
| "step p (Enqueue jid rid trig ch now) s = s\<lparr>sys_db := snd (enqueue jid now rid trig ch (sys_db s))\<rparr>"
| "step p (DequeueNext now) s = dequeue_and_start now s"
| "step p (SourceResolved rid h now) s = source_resolved p rid h now s"
| "step p (FactsExtracted rid fc loc) s = facts_extracted rid fc loc s"
| "step p (ContentGenerated rid did content now) s = content_generated rid did content now s"
| "step p (StatusFlipped rid now) s = status_flipped rid now s"
| "step p (StageFailed rid msg now) s = stage_failed p rid msg now s"

text \<open>
  Modelled from the spec: the state after a sequence of steps, from the empty system.
  The steps of all repositories, workers and requests interleave in the sequence.
\<close>

definition run_events :: "policy \<Rightarrow> event list \<Rightarrow> system" where
  "run_events p evs = fold (step p) evs initial_system"


section \<open>Properties of states\<close>

text \<open>Every version and every job references a repository that exists.\<close>

definition references_ok :: "database \<Rightarrow> bool" where
  "references_ok db \<longleftrightarrow>
     (\<forall>d\<in>set (documentation_tbl db). d_repo_id d \<in> set (map r_id (repositories_tbl db))) \<and>
     (\<forall>j\<in>set (monitoring_jobs_tbl db). j_repo_id j \<in> set (map r_id (repositories_tbl db)))"

text \<open>
  The store is in order when every writer in a critical section holds the lock of that
  repository, and a number a writer has read is the next number of the table.
\<close>

definition locks_ok :: "store_state \<Rightarrow> bool" where
  "locks_ok s \<longleftrightarrow>
     (\<forall>w r. in_section (st_pc s w) = Some r \<longrightarrow> st_lock s r = Some w) \<and>
     (\<forall>w c n. st_pc s w = Computed c n \<longrightarrow> n = next_version (st_db s) (ac_repoId c))"

text \<open>
  The running jobs of a repository; the jobs table is in order when its keys are
  distinct and no repository has two running jobs.
\<close>

definition running_of :: "monitoring_job_row list \<Rightarrow> uuid \<Rightarrow> monitoring_job_row list" where
  "running_of jobs rid = filter (\<lambda>j. j_repo_id j = rid \<and> j_status j = ''running'') jobs"

definition jobs_ok :: "monitoring_job_row list \<Rightarrow> bool" where
  "jobs_ok jobs \<longleftrightarrow> distinct (map j_id jobs) \<and> (\<forall>rid. length (running_of jobs rid) \<le> 1)"

text \<open>A repository row is in order when its status is one of the six.\<close>

definition status_ok :: "repository_row \<Rightarrow> bool" where
  "status_ok r \<longleftrightarrow> repositories_status_check (r_status r)"

definition registry_ok :: "database \<Rightarrow> bool" where
  "registry_ok db \<longleftrightarrow> (\<forall>r\<in>set (repositories_tbl db). status_ok r)"



text \<open>
  A repository has a version for a commit; a row is published when its
  \<open>last_commit_hash\<close>, if set, is the commit of one of its versions, and it is set
  once the row is \<open>completed\<close>; the system is in order when every row is published
  and every run that has persisted its version has that version in the table.
\<close>

definition has_version :: "database \<Rightarrow> uuid \<Rightarrow> sql_text \<Rightarrow> bool" where
  "has_version db rid h \<longleftrightarrow>
     (\<exists>d\<in>set (documentation_tbl db). d_repo_id d = rid \<and> d_commit_hash d = h)"

definition row_published :: "database \<Rightarrow> repository_row \<Rightarrow> bool" where
  "row_published db r \<longleftrightarrow>
     (\<forall>h. r_last_commit_hash r = Some h \<longrightarrow> has_version db (r_id r) h) \<and>
     (r_status r = ''completed'' \<longrightarrow> r_last_commit_hash r \<noteq> None)"

definition published_ok :: "system \<Rightarrow> bool" where
  "published_ok s \<longleftrightarrow>
     (\<forall>r\<in>set (repositories_tbl (sys_db s)). row_published (sys_db s) r) \<and>
     (\<forall>rid rn h. sys_runs s rid = Some rn \<longrightarrow> run_stage rn = Persisted h \<longrightarrow>
        has_version (sys_db s) rid h)"


section \<open>Example states\<close>

text \<open>
  One repository, analysed once: created, a manual job enqueued (a second enqueue is
  turned down), the job dequeued, the source resolved, the facts extracted, the
  content persisted and the status flipped.
\<close>

definition demo_database :: database where
  "demo_database =
     \<lparr>repositories_tbl = [repository_of_insert 10 (new_repository 1 ''https://a.b/c'' None)],
      documentation_tbl = [], monitoring_jobs_tbl = []\<rparr>"

definition demo_version :: documentation_row where
  "demo_version =
     \<lparr>d_id = 500, d_repo_id = 1, d_version = 1, d_commit_hash = ''abc123'', d_content = ''{}'',
      d_file_count = 7, d_lines_of_code = 300, d_created_at = 14\<rparr>"

definition demo_events :: "event list" where
  "demo_events =
     [CreateAnalysisRequest 1 ''https://a.b/c'' None 10, Enqueue 100 1 ''manual'' None 11,
      Enqueue 101 1 ''webhook'' None 11, DequeueNext 12, SourceResolved 1 ''abc123'' 13,
      FactsExtracted 1 7 300, ContentGenerated 1 500 ''{}'' 14, StatusFlipped 1 15]"

text \<open>
  After that a webhook announces the commit \<open>def456\<close>: a job is enqueued and runs to
  the end.
\<close>

definition demo_update_events :: "event list" where
  "demo_update_events =
     [Enqueue 102 1 ''webhook'' None 30, DequeueNext 31, SourceResolved 1 ''def456'' 32,
      FactsExtracted 1 8 320, ContentGenerated 1 501 ''{}'' 33, StatusFlipped 1 34]"

definition demo_start_events :: "event list" where
  "demo_start_events = take 4 demo_events"





definition demo_repository :: "sql_text \<Rightarrow> sql_text option \<Rightarrow> sql_text option \<Rightarrow> timestamp option \<Rightarrow> repository_row" where
  "demo_repository st h err t =
     \<lparr>r_id = 1, r_url = ''https://a.b/c'', r_name = None, r_description = None, r_status = st,
      r_last_commit_hash = h, r_branch = ''main'', r_monitoring_enabled = True,
      r_webhook_id = None, r_error_message = err, r_last_analyzed_at = t, r_created_at = 10,
      r_updated_at = None\<rparr>"

definition demo_job :: "sql_text \<Rightarrow> sql_text option \<Rightarrow> int \<Rightarrow> timestamp option \<Rightarrow> monitoring_job_row" where
  "demo_job st err n t =
     \<lparr>j_id = 100, j_repo_id = 1, j_status = st, j_trigger_type = ''manual'',
      j_changes_detected = None, j_error_message = err, j_retry_count = n,
      j_started_at = Some 12, j_completed_at = t, j_created_at = 11\<rparr>"

text \<open>
  Two writers for the example's repository, called at the same time. Between the steps
  of the first the second asks for the lock, in vain; it gets its turn after the first
  has given the lock back.
\<close>

definition demo_call :: append_call where
  "demo_call =
     \<lparr>ac_repoId = 1, ac_did = 500, ac_now = 14, ac_content = ''{}'', ac_commitHash = ''abc123'',
      ac_fileCount = 7, ac_linesOfCode = 300\<rparr>"

definition demo_call2 :: append_call where
  "demo_call2 =
     \<lparr>ac_repoId = 1, ac_did = 501, ac_now = 15, ac_content = ''{}'', ac_commitHash = ''def456'',
      ac_fileCount = 8, ac_linesOfCode = 320\<rparr>"

definition demo_writers :: "writer_action list" where
  "demo_writers =
     [Call 1 demo_call, Call 2 demo_call2, Advance 1, Advance 2, Advance 1, Advance 2,
      Advance 1, Advance 2, Advance 1, Advance 2, Advance 2, Advance 2, Advance 2]"

definition demo_writers_midway :: "writer_action list" where
  "demo_writers_midway = take 6 demo_writers"

text \<open>A second repository with its version and its job.\<close>

definition other_repository :: repository_row where
  "other_repository =
     \<lparr>r_id = 2, r_url = ''https://d.e/f'', r_name = None, r_description = None,
      r_status = ''completed'', r_last_commit_hash = Some ''0a1b2c'', r_branch = ''main'',
      r_monitoring_enabled = True, r_webhook_id = None, r_error_message = None,
      r_last_analyzed_at = Some 9, r_created_at = 5, r_updated_at = None\<rparr>"

definition other_version :: documentation_row where
  "other_version =
     \<lparr>d_id = 600, d_repo_id = 2, d_version = 1, d_commit_hash = ''0a1b2c'', d_content = ''{}'',
      d_file_count = 3, d_lines_of_code = 40, d_created_at = 9\<rparr>"

definition other_job :: monitoring_job_row where
  "other_job =
     \<lparr>j_id = 200, j_repo_id = 2, j_status = ''completed'', j_trigger_type = ''webhook'',
      j_changes_detected = None, j_error_message = None, j_retry_count = 0,
      j_started_at = Some 6, j_completed_at = Some 9, j_created_at = 5\<rparr>"

definition two_repositories :: database where
  "two_repositories =
     \<lparr>repositories_tbl = [demo_repository ''completed'' (Some ''abc123'') None (Some 15),
                          other_repository],
      documentation_tbl = [demo_version, other_version],
      monitoring_jobs_tbl = [demo_job ''completed'' None 0 (Some 15), other_job]\<rparr>"


section \<open>The frontend: strings, store, upload form and API client\<close>

lemma all_dropWhile_iff: "(\<forall>x\<in>set (dropWhile P xs). P x) \<longleftrightarrow> (\<forall>x\<in>set xs. P x)"
  by (induction xs) auto

text \<open>\<open>!s.trim()\<close> holds exactly for the strings of whitespace, the empty one included.\<close>

lemma trim_empty_iff: "trim s = [] \<longleftrightarrow> (\<forall>c\<in>set s. js_whitespace c)"
  by (simp add: trim_def all_dropWhile_iff)

text \<open>
  Claim C8. \<open>clearError\<close> leaves a state whose \<open>error\<close> is null and whose
  \<open>repositories\<close>, \<open>currentRepo\<close>, \<open>currentDoc\<close> and \<open>isLoading\<close> are those of the
  state before; each setter returns the state before with its own field replaced and
  every other field as it was.
\<close>

theorem store_setters_frame:
  "error (clearError s) = None \<and> repositories (clearError s) = repositories s \<and>
   currentRepo (clearError s) = currentRepo s \<and> currentDoc (clearError s) = currentDoc s \<and>
   isLoading (clearError s) = isLoading s \<and>
   setRepositories repos s = s\<lparr>repositories := repos\<rparr> \<and>
   setCurrentRepo repo s = s\<lparr>currentRepo := repo\<rparr> \<and>
   setCurrentDoc doc s = s\<lparr>currentDoc := doc\<rparr> \<and>
   setLoading loading s = s\<lparr>isLoading := loading\<rparr> \<and>
   setError e s = s\<lparr>error := e\<rparr>"
  by (simp add: clearError_def setRepositories_def setCurrentRepo_def setCurrentDoc_def
      setLoading_def setError_def zustand_set_def no_keys_def)

text \<open>
  Claim C9. When the URL field is empty or holds only whitespace, \<open>handleSubmit\<close> sets
  the store's error to \<open>Please enter a repository URL\<close> and returns: no analysis
  request is sent, the form's state (\<open>isSubmitting\<close> and \<open>result\<close> included) is what it
  was, and no redirect is scheduled.
\<close>

theorem handleSubmit_blank_url:
  assumes "\<forall>c\<in>set (url f). js_whitespace c"
  shows "handleSubmit http f st =
     \<lparr>out_form = f, out_store = st\<lparr>error := Some (js ''Please enter a repository URL'')\<rparr>,
      out_requests = [], out_redirect = False\<rparr>"
  using assms
  by (simp add: handleSubmit_def trim_empty_iff setError_def zustand_set_def no_keys_def)

text \<open>The form with a space and a tab as URL, against a backend that is down.\<close>

theorem handleSubmit_blank_url_witness:
  "js_whitespace 0x20 \<and> js_whitespace 0x9 \<and>
   out_requests (handleSubmit offline (RepoUpload_initial\<lparr>url := [0x20, 0x9]\<rparr>)
     useAppStore_initial) = [] \<and>
   error (out_store (handleSubmit offline (RepoUpload_initial\<lparr>url := [0x20, 0x9]\<rparr>)
     useAppStore_initial)) = Some (js ''Please enter a repository URL'') \<and>
   out_form (handleSubmit offline (RepoUpload_initial\<lparr>url := [0x20, 0x9]\<rparr>)
     useAppStore_initial) = RepoUpload_initial\<lparr>url := [0x20, 0x9]\<rparr>"
  using handleSubmit_blank_url
    [of "RepoUpload_initial\<lparr>url := [0x20, 0x9]\<rparr>" offline useAppStore_initial]
  by (simp add: js_whitespace_def)

text \<open>
  Claim C10. When the form is submitted with a URL (something is left of the field
  after trimming, so the submission passes the guard of \<open>handleSubmit\<close>), exactly one
  analysis request is sent, with the trimmed URL;
  its branch is \<open>main\<close> when the branch field is blank or whitespace-only and the
  trimmed field otherwise; its \<open>auth_token\<close> is undefined when the token field is blank
  or whitespace-only and the trimmed field otherwise. On its own, an insert into
  \<open>repositories\<close> that leaves the branch out stores \<open>main\<close>.
\<close>

theorem analyze_request_defaults:
  assumes "trim (url f) \<noteq> []"
  shows "(\<exists>d. out_requests (handleSubmit http f st) = [d] \<and> rc_url d = trim (url f) \<and>
            rc_branch d = (if (\<forall>c\<in>set (branch f). js_whitespace c) then Some (js ''main'')
                           else Some (trim (branch f))) \<and>
            rc_auth_token d = (if (\<forall>c\<in>set (authToken f). js_whitespace c) then None
                               else Some (trim (authToken f))) \<and>
            rc_monitoring_enabled d = Some True) \<and>
         r_branch (repository_of_insert now (v\<lparr>ri_branch := None\<rparr>)) = ''main''"
proof -
  have "out_requests (handleSubmit http f st) = [analyze_data f]"
    using assms by (simp add: handleSubmit_def Let_def split: promise.split)
  moreover have "rc_branch (analyze_data f) =
      (if (\<forall>c\<in>set (branch f). js_whitespace c) then Some (js ''main'') else Some (trim (branch f)))"
    by (simp add: analyze_data_def js_or_else_def trim_empty_iff [symmetric])
  moreover have "rc_auth_token (analyze_data f) =
      (if (\<forall>c\<in>set (authToken f). js_whitespace c) then None else Some (trim (authToken f)))"
    by (simp add: analyze_data_def js_or_def trim_empty_iff [symmetric])
  moreover have "rc_url (analyze_data f) = trim (url f)"
    and "rc_monitoring_enabled (analyze_data f) = Some True"
    by (simp_all add: analyze_data_def)
  moreover have "r_branch (repository_of_insert now (v\<lparr>ri_branch := None\<rparr>)) = ''main''"
    by (simp add: repository_of_insert_def)
  ultimately show ?thesis by blast
qed

text \<open>
  A form with the URL \<open>https://a.b/c\<close>, a space as branch and no token: one request
  goes out, for the branch \<open>main\<close> and without a token.
\<close>

theorem analyze_request_defaults_witness:
  "trim (url (RepoUpload_initial\<lparr>url := js ''https://a.b/c'', branch := [0x20]\<rparr>)) \<noteq> [] \<and>
   out_requests (handleSubmit offline
       (RepoUpload_initial\<lparr>url := js ''https://a.b/c'', branch := [0x20]\<rparr>) useAppStore_initial)
     = [\<lparr>rc_url = js ''https://a.b/c'', rc_auth_token = None, rc_branch = Some (js ''main''),
         rc_monitoring_enabled = Some True\<rparr>] \<and>
   r_branch (repository_of_insert 0 ((new_repository 1 ''https://a.b/c'' (Some ''dev''))
       \<lparr>ri_branch := None\<rparr>)) = ''main''"
  using analyze_request_defaults
    [of "RepoUpload_initial\<lparr>url := js ''https://a.b/c'', branch := [0x20]\<rparr>" offline
        useAppStore_initial 0 "new_repository 1 ''https://a.b/c'' (Some ''dev'')"]
  by (simp add: handleSubmit_def analyze_data_def trim_def js_def js_whitespace_def js_or_def
      js_or_else_def RepoUpload_initial_def offline_def repository_of_insert_def
      new_repository_def)

text \<open>
  Whatever the form holds, a request that goes out carries these values; and a URL of
  one space does not pass the guard, so the form with it sends no request at all.
\<close>

lemma every_request_has_defaults:
  assumes "d \<in> set (out_requests (handleSubmit http f st))"
  shows "rc_url d = trim (url f) \<and> rc_url d \<noteq> [] \<and>
         rc_branch d = (if (\<forall>c\<in>set (branch f). js_whitespace c) then Some (js ''main'')
                        else Some (trim (branch f))) \<and>
         rc_auth_token d = (if (\<forall>c\<in>set (authToken f). js_whitespace c) then None
                            else Some (trim (authToken f)))"
proof (cases "trim (url f) = []")
  case True
  then show ?thesis using assms by (simp add: handleSubmit_def)
next
  case False
  then have "d = analyze_data f"
    using assms by (auto simp: handleSubmit_def Let_def split: promise.splits if_splits)
  then show ?thesis using False
    by (simp add: analyze_data_def js_or_def js_or_else_def trim_empty_iff [symmetric])
qed

lemma whitespace_url_sends_no_request:
  "url (RepoUpload_initial\<lparr>url := [0x20], branch := []\<rparr>) \<noteq> [] \<and>
   out_requests (handleSubmit offline (RepoUpload_initial\<lparr>url := [0x20], branch := []\<rparr>)
     useAppStore_initial) = []"
  by (simp add: handleSubmit_def trim_def js_whitespace_def)

text \<open>
  Claim C7, as amended. Of the calls the API client offers, exactly the analysis
  request (repository create, which starts the analysis) and the repository delete
  change state; every other call, the job listing among them, is a GET that only
  reads. The client has no separate manual trigger.
\<close>

theorem mutating_operations:
  "mutating c = (case c of AnalyzeRepository d \<Rightarrow> True | DeleteRepository r \<Rightarrow> True | _ \<Rightarrow> False) \<and>
   filter mutating (api_surface repoId d) = [AnalyzeRepository d, DeleteRepository repoId]"
  by (cases c) (simp_all add: mutating_def api_surface_def)

text \<open>
  Claim C7 as it is stated fails: the job listing is among the operations it calls
  mutating, and the client's job listing is a GET.
\<close>

theorem job_listing_is_a_read:
  "spec_mutating_operation GetMonitoringJobs \<and> \<not> mutating GetMonitoringJobs"
  by (simp add: spec_mutating_operation_def mutating_def)

text \<open>
  The Markdown and the JSON export are calls of the client: the handler downloads what
  the backend returns.
\<close>

lemma api_module_exported: "set (map fst api_module) \<subseteq> set api_exports"
  by (simp add: api_module_def api_exports_def)

lemma exportMarkdown_exported:
  "handleExportMarkdown http repo_name repoId =
     (case http (request_of (ExportMarkdown repoId)) of
        Resolved blob \<Rightarrow> Download (download_name repo_name ''.md'') blob
      | Rejected e \<Rightarrow> Alert (js ''Failed to export Markdown''))"
  by (simp add: api_module_def handleExportMarkdown_def call_import_def)

lemma exportJSON_exported:
  "handleExportJSON http stringify repo_name repoId =
     (case http (request_of (ExportJSON repoId)) of
        Resolved data \<Rightarrow> Download (download_name repo_name ''.json'') (stringify data)
      | Rejected e \<Rightarrow> Alert (js ''Failed to export JSON''))"
  by (simp add: api_module_def handleExportJSON_def call_import_def)

text \<open>
  Under a strict linker the viewer does not even load: of the names it imports, all
  but \<open>exportDOCX\<close> are exported by the module.
\<close>

lemma viewer_imports_do_not_resolve:
  "\<not> imports_resolve DocumentationViewer_imports \<and>
   imports_resolve (butlast DocumentationViewer_imports)"
  by (simp add: imports_resolve_def DocumentationViewer_imports_def api_exports_def)

text \<open>
  Claim C6. The claim has all three exports available. The Word export is not: the
  module \<open>services/api\<close> exports no \<open>exportDOCX\<close>, so for every backend, repository
  and name the handler of the viewer's DOCX button ends in the alert and never in a
  download.
\<close>

theorem exportDOCX_not_exported:
  "''exportDOCX'' \<notin> set api_exports \<and>
   map_of api_module ''exportDOCX'' = None \<and>
   handleExportDOCX http repo_name repoId = Alert (js ''Failed to export DOCX'')"
  by (simp add: api_exports_def api_module_def handleExportDOCX_def call_import_def)


section \<open>The schema: what the statements change\<close>

lemma update_repositories_Inr:
  assumes "update_repositories P f db = Inr db'"
  shows "repositories_tbl db' =
           map (\<lambda>r. if P r then (f r)\<lparr>r_id := r_id r\<rparr> else r) (repositories_tbl db)"
    and "documentation_tbl db' = documentation_tbl db"
    and "monitoring_jobs_tbl db' = monitoring_jobs_tbl db"
    and "\<forall>r\<in>set (repositories_tbl db). P r \<longrightarrow> repositories_status_check (r_status (f r))"
  using assms by (auto simp: update_repositories_def list_all_iff split: if_splits)

lemma update_monitoring_jobs_Inr:
  assumes "update_monitoring_jobs P f db = Inr db'"
  shows "monitoring_jobs_tbl db' =
           map (\<lambda>j. if P j then (f j)\<lparr>j_id := j_id j, j_repo_id := j_repo_id j\<rparr> else j)
             (monitoring_jobs_tbl db)"
    and "documentation_tbl db' = documentation_tbl db"
    and "repositories_tbl db' = repositories_tbl db"
  using assms by (auto simp: update_monitoring_jobs_def split: option.splits if_splits)

lemma insert_repository_Inr:
  assumes "insert_repository now v db = Inr db'"
  shows "repositories_tbl db' = repositories_tbl db @ [repository_of_insert now v]"
    and "documentation_tbl db' = documentation_tbl db"
    and "monitoring_jobs_tbl db' = monitoring_jobs_tbl db"
    and "repositories_status_check (ri_status v)"
    and "ri_id v \<notin> r_id ` set (repositories_tbl db)"
  using assms
  by (auto simp: insert_repository_def Let_def repository_of_insert_def split: if_splits)

lemma insert_documentation_Inr:
  assumes "insert_documentation now v db = Inr db'"
  shows "documentation_tbl db' = documentation_tbl db @ [documentation_of_insert now v]"
    and "repositories_tbl db' = repositories_tbl db"
    and "monitoring_jobs_tbl db' = monitoring_jobs_tbl db"
    and "int4 (d_version (documentation_of_insert now v))"
    and "di_repo_id v \<in> r_id ` set (repositories_tbl db)"
  using assms
  by (auto simp: insert_documentation_def Let_def documentation_of_insert_def split: if_splits)

lemma insert_monitoring_job_Inr:
  assumes "insert_monitoring_job now v db = Inr db'"
  shows "monitoring_jobs_tbl db' = monitoring_jobs_tbl db @ [monitoring_job_of_insert now v]"
    and "repositories_tbl db' = repositories_tbl db"
    and "documentation_tbl db' = documentation_tbl db"
    and "ji_id v \<notin> j_id ` set (monitoring_jobs_tbl db)"
  using assms
  by (auto simp: insert_monitoring_job_def Let_def monitoring_job_of_insert_def split: if_splits)

text \<open>
  The schema alone does not keep version numbers apart: with version 1 of the
  repository in the table, a second row with version 1 is accepted.
\<close>

lemma schema_accepts_duplicate_version:
  "insert_documentation 20
     \<lparr>di_id = 501, di_repo_id = 1, di_version = Some 1, di_commit_hash = ''def456'',
      di_content = ''{}'', di_file_count = None, di_lines_of_code = None, di_created_at = None\<rparr>
     (demo_database\<lparr>documentation_tbl := [demo_version]\<rparr>)
   = Inr (demo_database\<lparr>documentation_tbl :=
       [demo_version,
        \<lparr>d_id = 501, d_repo_id = 1, d_version = 1, d_commit_hash = ''def456'', d_content = ''{}'',
         d_file_count = 0, d_lines_of_code = 0, d_created_at = 20\<rparr>]\<rparr>)"
  by (simp add: insert_documentation_def documentation_of_insert_def demo_database_def
      demo_version_def int4_def repository_of_insert_def new_repository_def)


section \<open>The Document Store: version numbers\<close>

lemma append_version_Inr:
  assumes "append_version did now rid content h fc loc db = Inr (d, db')"
  shows "documentation_tbl db' = documentation_tbl db @ [d]"
    and "repositories_tbl db' = repositories_tbl db"
    and "monitoring_jobs_tbl db' = monitoring_jobs_tbl db"
    and "d_repo_id d = rid" and "d_version d = next_version db rid" and "d_commit_hash d = h"
    and "int4 (d_version d)"
  using assms
  by (auto simp: append_version_def Let_def documentation_of_insert_def
      dest: insert_documentation_Inr split: sum.splits)

lemma fold_max_Max: "fold max vs v = Max (set (v # vs))"
  by (rule Max.set_eq_fold [symmetric])

lemma next_version_Max:
  "next_version db rid =
     (if versions_of db rid = [] then 1 else Max (set (versions_of db rid)) + 1)"
proof (cases "versions_of db rid")
  case Nil
  then show ?thesis by (simp add: next_version_def)
next
  case (Cons v vs)
  then show ?thesis using fold_max_Max [of vs v] by (simp add: next_version_def)
qed

lemma versions_below_next: "v \<in> set (versions_of db rid) \<Longrightarrow> v < next_version db rid"
proof -
  assume v: "v \<in> set (versions_of db rid)"
  then have "v \<le> Max (set (versions_of db rid))" by simp
  moreover from v have "versions_of db rid \<noteq> []" by auto
  ultimately show ?thesis by (simp add: next_version_Max)
qed

lemma versions_of_append:
  assumes "append_version did now rid content h fc loc db = Inr (d, db')"
  shows "versions_of db' r =
           (if r = rid then versions_of db rid @ [next_version db rid] else versions_of db r)"
  using append_version_Inr(1,4,5) [OF assms] by (simp add: versions_of_def)

lemma append_keeps_increasing:
  assumes "append_version did now rid content h fc loc db = Inr (d, db')"
    and "sorted_wrt (<) (versions_of db r)"
  shows "sorted_wrt (<) (versions_of db' r)"
  using assms(2) versions_below_next [of _ db rid]
  by (auto simp: versions_of_append [OF assms(1)] sorted_wrt_append)

lemma next_version_consecutive:
  assumes "versions_of db rid = [1..int (length (versions_of db rid))]"
  shows "next_version db rid = int (length (versions_of db rid)) + 1"
proof (cases "versions_of db rid = []")
  case True
  then show ?thesis by (simp add: next_version_Max)
next
  case False
  then have "1 \<le> int (length (versions_of db rid))" by (cases "versions_of db rid") auto
  then have "Max {1..int (length (versions_of db rid))} = int (length (versions_of db rid))"
    by (intro Max_eqI) auto
  moreover have "set (versions_of db rid) = {1..int (length (versions_of db rid))}"
    by (subst assms) simp
  ultimately show ?thesis using False by (simp add: next_version_Max)
qed

lemma append_keeps_consecutive:
  assumes "append_version did now rid content h fc loc db = Inr (d, db')"
    and "versions_of db r = [1..int (length (versions_of db r))]"
  shows "versions_of db' r = [1..int (length (versions_of db' r))]"
proof (cases "r = rid")
  case False
  then show ?thesis using assms(2) by (simp add: versions_of_append [OF assms(1)])
next
  case True
  let ?n = "int (length (versions_of db rid))"
  have "versions_of db' rid = [1..?n] @ [?n + 1]"
    using assms(2) True next_version_consecutive [of db rid]
    by (simp add: versions_of_append [OF assms(1)])
  also have "\<dots> = [1..?n + 1]" by (simp add: upto_rec2)
  finally have eq: "versions_of db' rid = [1..?n + 1]" .
  then have "int (length (versions_of db' rid)) = ?n + 1" by simp
  with eq True show ?thesis by simp
qed

lemma append_version_insert:
  "insert_documentation now
     \<lparr>di_id = did, di_repo_id = rid, di_version = Some (next_version db rid),
      di_commit_hash = h, di_content = content, di_file_count = Some fc,
      di_lines_of_code = Some loc, di_created_at = None\<rparr> db = Inr db'
   \<Longrightarrow> \<exists>d. append_version did now rid content h fc loc db = Inr (d, db')"
  by (simp add: append_version_def)

lemma next_version_cong:
  "versions_of db' r = versions_of db r \<Longrightarrow> next_version db' r = next_version db r"
  by (simp add: next_version_def)

text \<open>
  A step of a writer keeps the store in order, and it is no change of the table or one
  append of the Document Store.
\<close>

lemma in_section_cases:
  "in_section Idle = None" "in_section (Waiting c) = None"
  "in_section (Holding c) = Some (ac_repoId c)" "in_section (Computed c n) = Some (ac_repoId c)"
  "in_section (Done c) = Some (ac_repoId c)"
  by (simp_all add: in_section_def)

lemma locks_ok_holder:
  "locks_ok s \<Longrightarrow> in_section (st_pc s w) = Some r \<Longrightarrow> st_lock s r = Some w"
  by (simp add: locks_ok_def)

lemma locks_ok_number:
  "locks_ok s \<Longrightarrow> st_pc s w = Computed c n \<Longrightarrow> n = next_version (st_db s) (ac_repoId c)"
  by (simp add: locks_ok_def)

lemma locks_okI:
  assumes "\<And>w r. in_section (st_pc s w) = Some r \<Longrightarrow> st_lock s r = Some w"
    and "\<And>w c n. st_pc s w = Computed c n \<Longrightarrow> n = next_version (st_db s) (ac_repoId c)"
  shows "locks_ok s"
  using assms by (simp add: locks_ok_def)

lemma writer_step_cases:
  assumes ok: "locks_ok s"
  shows "locks_ok (writer_step x s) \<and>
     (st_db (writer_step x s) = st_db s \<or>
      (\<exists>did now rid content h fc loc d.
         append_version did now rid content h fc loc (st_db s) = Inr (d, st_db (writer_step x s))))"
proof (cases x)
  case (Call w c)
  show ?thesis
  proof (cases "st_pc s w")
    case Idle
    then have eq: "writer_step x s = s\<lparr>st_pc := (st_pc s)(w := Waiting c)\<rparr>"
      using Call by simp
    have "locks_ok (s\<lparr>st_pc := (st_pc s)(w := Waiting c)\<rparr>)"
    proof (rule locks_okI)
      fix w' r assume "in_section (st_pc (s\<lparr>st_pc := (st_pc s)(w := Waiting c)\<rparr>) w') = Some r"
      then have "w' \<noteq> w \<and> in_section (st_pc s w') = Some r"
        by (cases "w' = w") (simp_all add: in_section_cases)
      then show "st_lock (s\<lparr>st_pc := (st_pc s)(w := Waiting c)\<rparr>) r = Some w'"
        using locks_ok_holder [OF ok] by simp
    next
      fix w' c' n assume "st_pc (s\<lparr>st_pc := (st_pc s)(w := Waiting c)\<rparr>) w' = Computed c' n"
      then have "st_pc s w' = Computed c' n" by (cases "w' = w") simp_all
      then show "n = next_version (st_db (s\<lparr>st_pc := (st_pc s)(w := Waiting c)\<rparr>)) (ac_repoId c')"
        using locks_ok_number [OF ok] by simp
    qed
    then show ?thesis using eq by simp
  qed (use Call ok in simp_all)
next
  case (Advance w)
  show ?thesis
  proof (cases "st_pc s w")
    case Idle
    then show ?thesis using Advance ok by simp
  next
    case (Waiting c)
    show ?thesis
    proof (cases "st_lock s (ac_repoId c) = None")
      case False
      then show ?thesis using Advance Waiting ok by auto
    next
      case True
      let ?s' = "s\<lparr>st_lock := (st_lock s)(ac_repoId c := Some w),
                    st_pc := (st_pc s)(w := Holding c)\<rparr>"
      have eq: "writer_step x s = ?s'" using Advance Waiting True by simp
      have "locks_ok ?s'"
      proof (rule locks_okI)
        fix w' r assume a: "in_section (st_pc ?s' w') = Some r"
        show "st_lock ?s' r = Some w'"
        proof (cases "w' = w")
          case True
          then show ?thesis using a by (simp add: in_section_cases)
        next
          case False
          then have "st_lock s r = Some w'" using a locks_ok_holder [OF ok] by simp
          moreover from this have "r \<noteq> ac_repoId c" using True by auto
          ultimately show ?thesis by simp
        qed
      next
        fix w' c' n assume "st_pc ?s' w' = Computed c' n"
        then have "st_pc s w' = Computed c' n" by (cases "w' = w") simp_all
        then show "n = next_version (st_db ?s') (ac_repoId c')"
          using locks_ok_number [OF ok] by simp
      qed
      then show ?thesis using eq by simp
    qed
  next
    case (Holding c)
    let ?s' = "s\<lparr>st_pc := (st_pc s)(w := Computed c (next_version (st_db s) (ac_repoId c)))\<rparr>"
    have eq: "writer_step x s = ?s'" using Advance Holding by simp
    have held: "st_lock s (ac_repoId c) = Some w"
      using locks_ok_holder [OF ok, of w] Holding by (simp add: in_section_cases)
    have "locks_ok ?s'"
    proof (rule locks_okI)
      fix w' r assume a: "in_section (st_pc ?s' w') = Some r"
      show "st_lock ?s' r = Some w'"
      proof (cases "w' = w")
        case True
        then show ?thesis using a held by (simp add: in_section_cases)
      next
        case False
        then show ?thesis using a locks_ok_holder [OF ok] by simp
      qed
    next
      fix w' c' n assume a: "st_pc ?s' w' = Computed c' n"
      show "n = next_version (st_db ?s') (ac_repoId c')"
      proof (cases "w' = w")
        case True
        then show ?thesis using a by auto
      next
        case False
        then show ?thesis using a locks_ok_number [OF ok] by simp
      qed
    qed
    then show ?thesis using eq by simp
  next
    case (Computed c n)
    have n: "n = next_version (st_db s) (ac_repoId c)"
      using locks_ok_number [OF ok Computed] .
    have held: "st_lock s (ac_repoId c) = Some w"
      using locks_ok_holder [OF ok, of w] Computed by (simp add: in_section_cases)
    let ?v = "\<lparr>di_id = ac_did c, di_repo_id = ac_repoId c,
               di_version = Some (next_version (st_db s) (ac_repoId c)),
               di_commit_hash = ac_commitHash c, di_content = ac_content c,
               di_file_count = Some (ac_fileCount c),
               di_lines_of_code = Some (ac_linesOfCode c), di_created_at = None\<rparr>"
    have holder: "st_lock (s\<lparr>st_db := db', st_pc := (st_pc s)(w := Done c)\<rparr>) r = Some w'"
      if "in_section (st_pc (s\<lparr>st_db := db', st_pc := (st_pc s)(w := Done c)\<rparr>) w') = Some r"
      for db' w' r
      using that held locks_ok_holder [OF ok, of w' r]
      by (cases "w' = w") (simp_all add: in_section_cases)
    show ?thesis
    proof (cases "insert_documentation (ac_now c) ?v (st_db s)")
      case (Inl e)
      then have eq: "writer_step x s = s\<lparr>st_pc := (st_pc s)(w := Done c)\<rparr>"
        using Advance Computed n by simp
      have "locks_ok (s\<lparr>st_pc := (st_pc s)(w := Done c)\<rparr>)"
      proof (rule locks_okI)
        fix w' r assume "in_section (st_pc (s\<lparr>st_pc := (st_pc s)(w := Done c)\<rparr>) w') = Some r"
        then show "st_lock (s\<lparr>st_pc := (st_pc s)(w := Done c)\<rparr>) r = Some w'"
          using holder [of "st_db s" w' r] by simp
      next
        fix w' c' n' assume "st_pc (s\<lparr>st_pc := (st_pc s)(w := Done c)\<rparr>) w' = Computed c' n'"
        then have "st_pc s w' = Computed c' n'" by (cases "w' = w") simp_all
        then show "n' = next_version (st_db (s\<lparr>st_pc := (st_pc s)(w := Done c)\<rparr>)) (ac_repoId c')"
          using locks_ok_number [OF ok] by simp
      qed
      then show ?thesis using eq by simp
    next
      case (Inr db')
      then obtain d where a: "append_version (ac_did c) (ac_now c) (ac_repoId c) (ac_content c)
          (ac_commitHash c) (ac_fileCount c) (ac_linesOfCode c) (st_db s) = Inr (d, db')"
        using append_version_insert by blast
      have eq: "writer_step x s = s\<lparr>st_db := db', st_pc := (st_pc s)(w := Done c)\<rparr>"
        using Advance Computed n Inr by simp
      have "locks_ok (s\<lparr>st_db := db', st_pc := (st_pc s)(w := Done c)\<rparr>)"
      proof (rule locks_okI)
        fix w' r
        assume "in_section (st_pc (s\<lparr>st_db := db', st_pc := (st_pc s)(w := Done c)\<rparr>) w') = Some r"
        then show "st_lock (s\<lparr>st_db := db', st_pc := (st_pc s)(w := Done c)\<rparr>) r = Some w'"
          by (rule holder)
      next
        fix w' c' n'
        assume "st_pc (s\<lparr>st_db := db', st_pc := (st_pc s)(w := Done c)\<rparr>) w' = Computed c' n'"
        then have w': "w' \<noteq> w" and pc: "st_pc s w' = Computed c' n'"
          by (cases "w' = w"; simp)+
        have "st_lock s (ac_repoId c') = Some w'"
          using locks_ok_holder [OF ok, of w'] pc by (simp add: in_section_cases)
        then have "ac_repoId c' \<noteq> ac_repoId c" using held w' by auto
        then have "versions_of db' (ac_repoId c') = versions_of (st_db s) (ac_repoId c')"
          by (simp add: versions_of_append [OF a])
        then have "next_version db' (ac_repoId c') = next_version (st_db s) (ac_repoId c')"
          by (rule next_version_cong)
        then show "n' = next_version (st_db (s\<lparr>st_db := db', st_pc := (st_pc s)(w := Done c)\<rparr>))
            (ac_repoId c')"
          using locks_ok_number [OF ok pc] by simp
      qed
      then show ?thesis using a eq by auto
    qed
  next
    case (Done c)
    let ?s' = "s\<lparr>st_lock := (st_lock s)(ac_repoId c := None), st_pc := (st_pc s)(w := Idle)\<rparr>"
    have eq: "writer_step x s = ?s'" using Advance Done by simp
    have held: "st_lock s (ac_repoId c) = Some w"
      using locks_ok_holder [OF ok, of w] Done by (simp add: in_section_cases)
    have "locks_ok ?s'"
    proof (rule locks_okI)
      fix w' r assume a: "in_section (st_pc ?s' w') = Some r"
      then have w': "w' \<noteq> w" and sec: "in_section (st_pc s w') = Some r"
        by (cases "w' = w"; simp add: in_section_cases)+
      have "st_lock s r = Some w'" using locks_ok_holder [OF ok sec] .
      moreover from this have "r \<noteq> ac_repoId c" using held w' by auto
      ultimately show "st_lock ?s' r = Some w'" by simp
    next
      fix w' c' n assume "st_pc ?s' w' = Computed c' n"
      then have "st_pc s w' = Computed c' n" by (cases "w' = w") simp_all
      then show "n = next_version (st_db ?s') (ac_repoId c')"
        using locks_ok_number [OF ok] by simp
    qed
    then show ?thesis using eq by simp
  qed
qed

lemma run_writers_invariant:
  assumes "locks_ok s" and "\<And>r. Q (versions_of (st_db s) r)"
    and keep: "\<And>did now rid content h fc loc db d db' r.
      append_version did now rid content h fc loc db = Inr (d, db') \<Longrightarrow>
      Q (versions_of db r) \<Longrightarrow> Q (versions_of db' r)"
  shows "locks_ok (fold writer_step steps s) \<and> (\<forall>r. Q (versions_of (st_db (fold writer_step steps s)) r))"
  using assms(1,2)
proof (induction steps arbitrary: s)
  case Nil
  then show ?case by simp
next
  case (Cons x steps)
  have c: "locks_ok (writer_step x s)"
    and d: "st_db (writer_step x s) = st_db s \<or>
      (\<exists>did now rid content h fc loc d.
         append_version did now rid content h fc loc (st_db s) = Inr (d, st_db (writer_step x s)))"
    using writer_step_cases [OF Cons.prems(1), of x] by simp_all
  have "Q (versions_of (st_db (writer_step x s)) r)" for r
    using d Cons.prems(2) [of r] keep by (auto simp: versions_of_def)
  then show ?case using Cons.IH [OF c] by simp
qed

lemma locks_ok_idle: "locks_ok (idle_store db)"
  by (simp add: locks_ok_def idle_store_def in_section_cases)

lemma run_writers_increasing:
  assumes "\<And>r. sorted_wrt (<) (versions_of db r)"
  shows "sorted_wrt (<) (versions_of (run_writers steps db) r)"
proof -
  have "sorted_wrt (<) (versions_of (st_db (idle_store db)) r)" for r
    using assms by (simp add: idle_store_def)
  then show ?thesis
    using run_writers_invariant [of "idle_store db" "sorted_wrt (<)" steps, OF locks_ok_idle]
      append_keeps_increasing
    unfolding run_writers_def store_after_def by blast
qed

lemma run_writers_consecutive:
  assumes "documentation_tbl db = []"
  shows "versions_of (run_writers steps db) r
           = [1..int (length (versions_of (run_writers steps db) r))]"
proof -
  have "versions_of (st_db (idle_store db)) r
      = [1..int (length (versions_of (st_db (idle_store db)) r))]" for r
    using assms by (simp add: idle_store_def versions_of_def)
  then show ?thesis
    using run_writers_invariant
      [of "idle_store db" "\<lambda>vs. vs = [1..int (length vs)]" steps, OF locks_ok_idle]
      append_keeps_consecutive
    unfolding run_writers_def store_after_def by blast
qed

text \<open>
  At any time a writer in the critical section of a repository holds that repository's
  lock, so it is the only one there.
\<close>

lemma store_after_locks_ok: "locks_ok (store_after steps db)"
  using run_writers_invariant [of "idle_store db" "\<lambda>vs. True" steps, OF locks_ok_idle]
  by (simp add: store_after_def)

lemma one_writer_in_section:
  assumes "in_section (st_pc (store_after steps db) w) = Some r"
  shows "st_lock (store_after steps db) r = Some w"
    and "in_section (st_pc (store_after steps db) w') = Some r \<Longrightarrow> w' = w"
proof -
  show l: "st_lock (store_after steps db) r = Some w"
    using locks_ok_holder [OF store_after_locks_ok assms] .
  assume "in_section (st_pc (store_after steps db) w') = Some r"
  then have "st_lock (store_after steps db) r = Some w'"
    by (rule locks_ok_holder [OF store_after_locks_ok])
  with l show "w' = w" by simp
qed

text \<open>A writer that is not interrupted does what one append does.\<close>

lemma serial_writer_appends:
  "run_writers [Call w c, Advance w, Advance w, Advance w, Advance w] db
     = (case append_version (ac_did c) (ac_now c) (ac_repoId c) (ac_content c) (ac_commitHash c)
               (ac_fileCount c) (ac_linesOfCode c) db of
          Inl e \<Rightarrow> db
        | Inr (x, y) \<Rightarrow> y)"
  by (simp add: run_writers_def store_after_def idle_store_def append_version_def
      split: sum.splits)

text \<open>
  Claim C1. An append that succeeds gives the new version the number
  \<open>max(existing versions of the repository) + 1\<close>, 1 if there is none: a number above
  every existing one, added at the end, with the other repositories' numbers as they
  were. When writers run concurrently, each reading the maximum in one step and
  inserting in a later one, the per-repository lock serialises them: at any time a
  writer between taking and giving back the lock of a repository holds that lock and is
  the only writer there. So however their steps interleave, the numbers of a repository
  stay strictly increasing (no number is used twice), and from an empty table they are
  exactly 1, 2, ..., n. A writer that runs alone does what one append does.
\<close>

theorem append_version_numbers:
  "(append_version did now rid content h fc loc db = Inr (d, db') \<longrightarrow>
      d_version d = (if versions_of db rid = [] then 1 else Max (set (versions_of db rid)) + 1) \<and>
      (\<forall>v\<in>set (versions_of db rid). v < d_version d) \<and>
      versions_of db' rid = versions_of db rid @ [d_version d] \<and>
      (\<forall>r. r \<noteq> rid \<longrightarrow> versions_of db' r = versions_of db r)) \<and>
   ((\<forall>r. sorted_wrt (<) (versions_of db r)) \<longrightarrow>
      sorted_wrt (<) (versions_of (run_writers steps db) r)) \<and>
   (documentation_tbl db = [] \<longrightarrow>
      versions_of (run_writers steps db) r
        = [1..int (length (versions_of (run_writers steps db) r))]) \<and>
   (in_section (st_pc (store_after steps' db) w) = Some r \<longrightarrow>
      st_lock (store_after steps' db) r = Some w \<and>
      (\<forall>w'. in_section (st_pc (store_after steps' db) w') = Some r \<longrightarrow> w' = w)) \<and>
   run_writers [Call w c, Advance w, Advance w, Advance w, Advance w] db
     = (case append_version (ac_did c) (ac_now c) (ac_repoId c) (ac_content c) (ac_commitHash c)
               (ac_fileCount c) (ac_linesOfCode c) db of
          Inl e \<Rightarrow> db
        | Inr (x, y) \<Rightarrow> y)"
proof (intro conjI impI allI)
  assume a: "append_version did now rid content h fc loc db = Inr (d, db')"
  have v: "d_version d = next_version db rid" by (rule append_version_Inr(5) [OF a])
  show "d_version d = (if versions_of db rid = [] then 1 else Max (set (versions_of db rid)) + 1)"
    using v by (simp add: next_version_Max)
  show "\<forall>v\<in>set (versions_of db rid). v < d_version d"
    using v versions_below_next by simp
  show "versions_of db' rid = versions_of db rid @ [d_version d]"
    using v by (simp add: versions_of_append [OF a])
  show "versions_of db' r = versions_of db r" if "r \<noteq> rid" for r
    using that by (simp add: versions_of_append [OF a])
next
  assume "\<forall>r. sorted_wrt (<) (versions_of db r)"
  then show "sorted_wrt (<) (versions_of (run_writers steps db) r)"
    by (intro run_writers_increasing) simp
next
  assume "documentation_tbl db = []"
  then show "versions_of (run_writers steps db) r
      = [1..int (length (versions_of (run_writers steps db) r))]"
    by (rule run_writers_consecutive)
next
  assume s: "in_section (st_pc (store_after steps' db) w) = Some r"
  show "st_lock (store_after steps' db) r = Some w" by (rule one_writer_in_section(1) [OF s])
  show "w' = w" if "in_section (st_pc (store_after steps' db) w') = Some r" for w'
    using that by (rule one_writer_in_section(2) [OF s])
next
  show "run_writers [Call w c, Advance w, Advance w, Advance w, Advance w] db
     = (case append_version (ac_did c) (ac_now c) (ac_repoId c) (ac_content c) (ac_commitHash c)
               (ac_fileCount c) (ac_linesOfCode c) db of
          Inl e \<Rightarrow> db
        | Inr (x, y) \<Rightarrow> y)"
    by (rule serial_writer_appends)
qed

text \<open>
  The first append for the example's repository gets version 1. Of the two writers
  called together, the first is in the critical section midway, with the number 1 it
  has read, while the second waits; in the end the table has the versions 1 and 2.
\<close>

lemma demo_append:
  "append_version 500 14 1 ''{}'' ''abc123'' 7 300 demo_database =
     Inr (demo_version, demo_database\<lparr>documentation_tbl := [demo_version]\<rparr>)"
  by (simp add: append_version_def insert_documentation_def documentation_of_insert_def
      next_version_def versions_of_def demo_database_def demo_version_def int4_def
      repository_of_insert_def new_repository_def)

lemma demo_writers_versions: "versions_of (run_writers demo_writers demo_database) 1 = [1, 2]"
  by code_simp

lemma demo_writers_midway_state:
  "st_pc (store_after demo_writers_midway demo_database) 1 = Computed demo_call 1"
  "st_pc (store_after demo_writers_midway demo_database) 2 = Waiting demo_call2"
  "st_lock (store_after demo_writers_midway demo_database) 1 = Some 1"
  by code_simp+

lemma demo_call_repoId: "ac_repoId demo_call = 1"
  by (simp add: demo_call_def)

theorem append_version_numbers_witness:
  "append_version 500 14 1 ''{}'' ''abc123'' 7 300 demo_database =
     Inr (demo_version, demo_database\<lparr>documentation_tbl := [demo_version]\<rparr>) \<and>
   d_version demo_version = 1 \<and>
   (\<forall>r. sorted_wrt (<) (versions_of demo_database r)) \<and>
   documentation_tbl demo_database = [] \<and>
   versions_of (run_writers demo_writers demo_database) 1 = [1, 2] \<and>
   in_section (st_pc (store_after demo_writers_midway demo_database) 1) = Some 1 \<and>
   st_lock (store_after demo_writers_midway demo_database) 1 = Some 1 \<and>
   in_section (st_pc (store_after demo_writers_midway demo_database) 2) = None"
proof -
  have sorted: "\<forall>r. sorted_wrt (<) (versions_of demo_database r)"
    and empty: "documentation_tbl demo_database = []"
    by (simp_all add: versions_of_def demo_database_def)
  have sec: "in_section (st_pc (store_after demo_writers_midway demo_database) 1) = Some 1"
    and sec2: "in_section (st_pc (store_after demo_writers_midway demo_database) 2) = None"
    by (simp_all only: demo_writers_midway_state in_section_cases demo_call_repoId)
  show ?thesis
    using append_version_numbers
      [where did = 500 and now = 14 and rid = 1 and content = "''{}''" and h = "''abc123''"
         and fc = 7 and loc = 300 and db = demo_database and d = demo_version
         and db' = "demo_database\<lparr>documentation_tbl := [demo_version]\<rparr>"
         and steps = demo_writers and r = 1 and steps' = demo_writers_midway and w = 1
         and c = demo_call]
      demo_append demo_writers_versions sorted empty sec sec2
    by (simp add: demo_version_def)
qed


section \<open>The steps of the system\<close>

lemma apply_transition_Some:
  assumes "apply_transition ev assign rid db = Some db'"
  shows "\<exists>st0 st. transition st0 ev = Some st \<and>
           repositories_tbl db' =
             map (\<lambda>x. if r_id x = rid \<and> r_status x = st0
                       then (assign x)\<lparr>r_status := st, r_id := r_id x\<rparr> else x)
               (repositories_tbl db)"
    and "documentation_tbl db' = documentation_tbl db"
    and "monitoring_jobs_tbl db' = monitoring_jobs_tbl db"
  using assms
  by (auto simp: apply_transition_def dest: update_repositories_Inr
      split: option.splits sum.splits)

lemma short_circuit_Some:
  assumes "short_circuit rid h now db = Some db'"
  shows "repositories_tbl db' =
           map (\<lambda>x. if r_id x = rid \<and> r_status x = ''cloning'' \<and> r_last_commit_hash x = Some h
                     then x\<lparr>r_status := ''completed'', r_last_analyzed_at := Some now,
                            r_last_commit_hash := Some h\<rparr> else x)
             (repositories_tbl db)"
    and "documentation_tbl db' = documentation_tbl db"
    and "monitoring_jobs_tbl db' = monitoring_jobs_tbl db"
proof -
  have "update_repositories
       (\<lambda>x. r_id x = rid \<and> r_status x = ''cloning'' \<and> r_last_commit_hash x = Some h)
       (\<lambda>x. x\<lparr>r_status := ''completed'', r_last_analyzed_at := Some now,
              r_last_commit_hash := Some h\<rparr>) db = Inr db'"
    using assms by (auto simp: short_circuit_def split: option.splits if_splits sum.splits)
  from update_repositories_Inr(1-3) [OF this]
  show "repositories_tbl db' =
           map (\<lambda>x. if r_id x = rid \<and> r_status x = ''cloning'' \<and> r_last_commit_hash x = Some h
                     then x\<lparr>r_status := ''completed'', r_last_analyzed_at := Some now,
                            r_last_commit_hash := Some h\<rparr> else x)
             (repositories_tbl db)"
    and "documentation_tbl db' = documentation_tbl db"
    and "monitoring_jobs_tbl db' = monitoring_jobs_tbl db"
    by simp_all
qed

lemma job_succeeded_tables [simp]:
  "repositories_tbl (job_succeeded jid now db) = repositories_tbl db"
  "documentation_tbl (job_succeeded jid now db) = documentation_tbl db"
  by (auto simp: job_succeeded_def dest: update_monitoring_jobs_Inr split: sum.splits)

lemma job_failed_tables [simp]:
  "repositories_tbl (job_failed p jid msg now db) = repositories_tbl db"
  "documentation_tbl (job_failed p jid msg now db) = documentation_tbl db"
  by (auto simp: job_failed_def dest: update_monitoring_jobs_Inr split: sum.splits)

lemma dequeueNext_tables [simp]:
  "repositories_tbl (snd (dequeueNext now db)) = repositories_tbl db"
  "documentation_tbl (snd (dequeueNext now db)) = documentation_tbl db"
  by (auto simp: dequeueNext_def dest: update_monitoring_jobs_Inr split: option.splits sum.splits)

lemma enqueue_tables [simp]:
  "repositories_tbl (snd (enqueue jid now rid trig ch db)) = repositories_tbl db"
  "documentation_tbl (snd (enqueue jid now rid trig ch db)) = documentation_tbl db"
  by (auto simp: enqueue_def Let_def dest: insert_monitoring_job_Inr split: option.splits sum.splits)

lemma dequeueNext_result:
  assumes "dequeueNext now db = (jo, db1)"
  shows "repositories_tbl db1 = repositories_tbl db" and "documentation_tbl db1 = documentation_tbl db"
  using dequeueNext_tables [of now db] assms by simp_all

lemma run_events_snoc: "run_events p (evs @ [e]) = step p e (run_events p evs)"
  by (simp add: run_events_def)

lemma transition_target:
  assumes "transition st0 ev = Some st"
  shows "repositories_status_check st"
    and "st = ''failed'' \<longleftrightarrow> ev = clone_fails \<or> ev = extraction_fails \<or> ev = generation_fails"
    and "st0 = ''failed'' \<Longrightarrow> ev = job_starts"
    and "st = ''completed'' \<longleftrightarrow> ev = content_produced"
  using assms
  by (auto simp: transition_def repositories_status_check_def split: if_splits)

lemma failure_of_not_content: "failure_of st = Some ev \<Longrightarrow> ev \<noteq> content_produced"
  by (auto simp: failure_of_def split: run_stage.splits)

text \<open>The three example runs, evaluated.\<close>

lemma demo_running:
  "sys_db (run_events default_policy demo_start_events) =
     \<lparr>repositories_tbl = [demo_repository ''cloning'' None None None], documentation_tbl = [],
      monitoring_jobs_tbl = [demo_job ''running'' None 0 None]\<rparr>"
  by code_simp

lemma demo_completed:
  "sys_db (run_events default_policy demo_events) =
     \<lparr>repositories_tbl = [demo_repository ''completed'' (Some ''abc123'') None (Some 15)],
      documentation_tbl = [demo_version],
      monitoring_jobs_tbl = [demo_job ''completed'' None 0 (Some 15)]\<rparr>"
  by code_simp


text \<open>
  A step leaves the versions table as it is, appends one version through the Document
  Store, or removes the versions of one deleted repository: no step changes or removes
  a single version.
\<close>

lemma step_documentation:
  "documentation_tbl (sys_db (step p e s)) = documentation_tbl (sys_db s) \<or>
   (\<exists>did now rid content h fc loc d db'.
      append_version did now rid content h fc loc (sys_db s) = Inr (d, db') \<and>
      documentation_tbl (sys_db (step p e s)) = documentation_tbl (sys_db s) @ [d]) \<or>
   (\<exists>rid. e = DeleteRepositoryRequest rid \<and>
      documentation_tbl (sys_db (step p e s))
        = filter (\<lambda>d. d_repo_id d \<noteq> rid) (documentation_tbl (sys_db s)))"
proof (cases e)
  case (CreateAnalysisRequest rid u b now)
  then show ?thesis
    by (auto simp: create_analysis_def dest: insert_repository_Inr(2) split: sum.splits)
next
  case (DeleteRepositoryRequest rid)
  then have "documentation_tbl (sys_db (step p e s))
      = filter (\<lambda>d. d_repo_id d \<noteq> rid) (documentation_tbl (sys_db s))"
    by (simp add: delete_request_def delete_repository_def)
  then show ?thesis using DeleteRepositoryRequest by blast
next
  case (Enqueue jid rid trig ch now)
  then show ?thesis by simp
next
  case (DequeueNext now)
  obtain jo db1 where dq: "dequeueNext now (sys_db s) = (jo, db1)"
    by (cases "dequeueNext now (sys_db s)") auto
  have d1: "documentation_tbl db1 = documentation_tbl (sys_db s)"
    by (rule dequeueNext_result(2) [OF dq])
  have "documentation_tbl (sys_db (dequeue_and_start now s)) = documentation_tbl (sys_db s)"
    using dq d1
    by (auto simp: dequeue_and_start_def dest!: apply_transition_Some(2) split: option.splits)
  with DequeueNext show ?thesis by simp
next
  case (SourceResolved rid h now)
  have "documentation_tbl (sys_db (source_resolved p rid h now s)) = documentation_tbl (sys_db s)"
    by (auto simp: source_resolved_def dest: apply_transition_Some(2) short_circuit_Some(2)
        split: option.splits run_stage.splits if_splits)
  with SourceResolved show ?thesis by simp
next
  case (FactsExtracted rid fc loc)
  have "documentation_tbl (sys_db (facts_extracted rid fc loc s)) = documentation_tbl (sys_db s)"
    by (auto simp: facts_extracted_def dest: apply_transition_Some(2)
        split: option.splits run_stage.splits)
  with FactsExtracted show ?thesis by simp
next
  case (ContentGenerated rid did content now)
  show ?thesis
  proof (cases "sys_runs s rid")
    case None
    then show ?thesis using ContentGenerated by (simp add: content_generated_def)
  next
    case (Some rn)
    show ?thesis
    proof (cases "run_stage rn")
      case (Generating h fc loc)
      show ?thesis
      proof (cases "append_version did now rid content h fc loc (sys_db s)")
        case (Inl err)
        then show ?thesis using ContentGenerated Some Generating
          by (simp add: content_generated_def)
      next
        case (Inr res)
        obtain d db' where res: "res = (d, db')" by (cases res) auto
        have a: "append_version did now rid content h fc loc (sys_db s) = Inr (d, db')"
          using Inr res by simp
        have "documentation_tbl (sys_db (step p e s)) = documentation_tbl (sys_db s) @ [d]"
          using ContentGenerated Some Generating a append_version_Inr(1) [OF a]
          by (simp add: content_generated_def)
        with a show ?thesis by blast
      qed
    qed (use ContentGenerated Some in \<open>simp_all add: content_generated_def\<close>)
  qed
next
  case (StatusFlipped rid now)
  have "documentation_tbl (sys_db (status_flipped rid now s)) = documentation_tbl (sys_db s)"
    by (auto simp: status_flipped_def dest: apply_transition_Some(2)
        split: option.splits run_stage.splits)
  with StatusFlipped show ?thesis by simp
next
  case (StageFailed rid msg now)
  have "documentation_tbl (sys_db (stage_failed p rid msg now s)) = documentation_tbl (sys_db s)"
    by (auto simp: stage_failed_def dest: apply_transition_Some(2) split: option.splits)
  with StageFailed show ?thesis by simp
qed

lemma filter_other_repository:
  "map f (filter (\<lambda>d. g d = r) (filter (\<lambda>d. g d \<noteq> rid) xs))
     = (if r = rid then [] else map f (filter (\<lambda>d. g d = r) xs))"
  by (induction xs) auto

lemma versions_of_cong:
  "documentation_tbl db' = documentation_tbl db \<Longrightarrow> versions_of db' r = versions_of db r"
  by (simp add: versions_of_def)

lemma step_versions_increasing:
  assumes "sorted_wrt (<) (versions_of (sys_db s) r)"
  shows "sorted_wrt (<) (versions_of (sys_db (step p e s)) r)"
proof -
  consider
    (same) "documentation_tbl (sys_db (step p e s)) = documentation_tbl (sys_db s)"
  | (app) did now rid content h fc loc d db' where
      "append_version did now rid content h fc loc (sys_db s) = Inr (d, db')"
      "documentation_tbl (sys_db (step p e s)) = documentation_tbl (sys_db s) @ [d]"
  | (del) rid where "documentation_tbl (sys_db (step p e s))
      = filter (\<lambda>d. d_repo_id d \<noteq> rid) (documentation_tbl (sys_db s))"
    using step_documentation [of p e s] by blast
  then show ?thesis
  proof cases
    case same
    then show ?thesis using assms by (simp add: versions_of_cong [OF same])
  next
    case app
    have "documentation_tbl (sys_db (step p e s)) = documentation_tbl db'"
      by (simp only: app(2) append_version_Inr(1) [OF app(1)])
    then have "versions_of (sys_db (step p e s)) r = versions_of db' r"
      by (rule versions_of_cong)
    then show ?thesis using append_keeps_increasing [OF app(1) assms] by simp
  next
    case del
    have "versions_of (sys_db (step p e s)) r
        = (if r = rid then [] else versions_of (sys_db s) r)"
      unfolding versions_of_def del by (rule filter_other_repository)
    then show ?thesis using assms by simp
  qed
qed

text \<open>In every state of the system the version numbers of a repository are strictly increasing.\<close>

lemma system_versions_increasing: "sorted_wrt (<) (versions_of (sys_db (run_events p evs)) r)"
proof (induction evs rule: rev_induct)
  case Nil
  then show ?case
    by (simp add: run_events_def initial_system_def empty_database_def versions_of_def)
next
  case (snoc e evs)
  then show ?case by (simp add: run_events_snoc step_versions_increasing)
qed


section \<open>Deleting a repository, and the versions that stay\<close>

lemma references_ok_delete: "references_ok db \<Longrightarrow> references_ok (delete_repository rid db)"
  by (auto simp: references_ok_def delete_repository_def)

text \<open>
  The schema alone does not protect a single version: deleting one row of
  \<open>documentation\<close> breaks no constraint. That no version is changed or removed on its
  own is a property of the pipeline, which reaches the table only through the Document
  Store's append and the deletion of a repository.
\<close>

lemma schema_accepts_version_delete:
  "references_ok two_repositories \<and>
   delete_documentation 500 two_repositories
     = two_repositories\<lparr>documentation_tbl := [other_version]\<rparr> \<and>
   references_ok (delete_documentation 500 two_repositories)"
  by (simp add: references_ok_def two_repositories_def delete_documentation_def
      demo_repository_def demo_version_def demo_job_def other_repository_def other_version_def
      other_job_def)

text \<open>
  Over any sequence of steps the versions table keeps the rows it had, as they were and
  in their order, except those of the repositories deleted on the way; what the steps
  add follows them.
\<close>

lemma fold_step_documentation:
  "\<exists>new. documentation_tbl (sys_db (fold (step p) evs s)) =
     filter (\<lambda>d. DeleteRepositoryRequest (d_repo_id d) \<notin> set evs) (documentation_tbl (sys_db s))
       @ new"
proof (induction evs rule: rev_induct)
  case Nil
  then show ?case by simp
next
  case (snoc e evs)
  let ?s = "fold (step p) evs s"
  let ?old = "documentation_tbl (sys_db s)"
  obtain new where new: "documentation_tbl (sys_db ?s) =
      filter (\<lambda>d. DeleteRepositoryRequest (d_repo_id d) \<notin> set evs) ?old @ new"
    using snoc.IH by blast
  show ?case
  proof (cases "\<exists>rid. e = DeleteRepositoryRequest rid")
    case True
    then obtain rid where e: "e = DeleteRepositoryRequest rid" by blast
    have "documentation_tbl (sys_db (step p e ?s))
        = filter (\<lambda>d. d_repo_id d \<noteq> rid) (documentation_tbl (sys_db ?s))"
      using e by (simp add: delete_request_def delete_repository_def)
    also have "\<dots> = filter (\<lambda>d. DeleteRepositoryRequest (d_repo_id d) \<notin> set (evs @ [e])) ?old
        @ filter (\<lambda>d. d_repo_id d \<noteq> rid) new"
      unfolding new using e by (auto intro: filter_cong)
    finally show ?thesis by simp
  next
    case False
    then have P: "DeleteRepositoryRequest x \<noteq> e" for x by auto
    have "documentation_tbl (sys_db (step p e ?s)) = documentation_tbl (sys_db ?s) \<or>
        (\<exists>d. documentation_tbl (sys_db (step p e ?s)) = documentation_tbl (sys_db ?s) @ [d])"
      using step_documentation [of p e ?s] False by blast
    then show ?thesis using new by (auto simp: P)
  qed
qed

text \<open>
  Claim C4. Deleting a repository leaves exactly the versions and the jobs of the other
  repositories, unchanged and in their order: no version, no job and no repository row
  with the deleted key remains, and no reference dangles afterwards; the pipeline's
  delete request is this deletion. Apart from it no version is changed or removed:
  over any sequence of steps of the pipeline the versions table keeps the rows it had,
  as they were and in their order, except those of the repositories deleted on the way,
  and the new versions follow them; so a version whose repository is not deleted is
  still in the table afterwards, as it was.
\<close>

theorem delete_repository_cascades:
  "documentation_tbl (delete_repository rid db)
     = filter (\<lambda>d. d_repo_id d \<noteq> rid) (documentation_tbl db) \<and>
   monitoring_jobs_tbl (delete_repository rid db)
     = filter (\<lambda>j. j_repo_id j \<noteq> rid) (monitoring_jobs_tbl db) \<and>
   (\<forall>d\<in>set (documentation_tbl (delete_repository rid db)). d_repo_id d \<noteq> rid) \<and>
   (\<forall>j\<in>set (monitoring_jobs_tbl (delete_repository rid db)). j_repo_id j \<noteq> rid) \<and>
   (\<forall>r\<in>set (repositories_tbl (delete_repository rid db)). r_id r \<noteq> rid) \<and>
   (references_ok db \<longrightarrow> references_ok (delete_repository rid db)) \<and>
   sys_db (step p (DeleteRepositoryRequest rid) s) = delete_repository rid (sys_db s) \<and>
   (\<exists>new. documentation_tbl (sys_db (fold (step p) evs s)) =
      filter (\<lambda>d. DeleteRepositoryRequest (d_repo_id d) \<notin> set evs) (documentation_tbl (sys_db s))
        @ new) \<and>
   (d \<in> set (documentation_tbl (sys_db s)) \<and> DeleteRepositoryRequest (d_repo_id d) \<notin> set evs \<longrightarrow>
      d \<in> set (documentation_tbl (sys_db (fold (step p) evs s))))"
proof -
  obtain new where new: "documentation_tbl (sys_db (fold (step p) evs s)) =
      filter (\<lambda>d. DeleteRepositoryRequest (d_repo_id d) \<notin> set evs) (documentation_tbl (sys_db s))
        @ new"
    using fold_step_documentation by blast
  have "d \<in> set (documentation_tbl (sys_db s)) \<and> DeleteRepositoryRequest (d_repo_id d) \<notin> set evs \<longrightarrow>
      d \<in> set (documentation_tbl (sys_db (fold (step p) evs s)))"
    unfolding new by simp
  moreover have "sys_db (step p (DeleteRepositoryRequest rid) s) = delete_repository rid (sys_db s)"
    by (simp add: delete_request_def)
  ultimately show ?thesis
    using references_ok_delete [of db rid] fold_step_documentation [of p evs s]
    by (simp add: delete_repository_def)
qed

text \<open>
  Two repositories with a version and a job each: deleting the first leaves the rows of
  the second. And the example's repository after its first analysis: a webhook for a
  new commit brings version 2, and version 1 is still there as it was.
\<close>

lemma demo_updated:
  "documentation_tbl (sys_db (fold (step default_policy) demo_update_events
       (run_events default_policy demo_events)))
     = [demo_version, demo_version\<lparr>d_id := 501, d_version := 2, d_commit_hash := ''def456'',
          d_file_count := 8, d_lines_of_code := 320, d_created_at := 33\<rparr>]"
  by code_simp

theorem delete_repository_cascades_witness:
  "references_ok two_repositories \<and>
   delete_repository 1 two_repositories =
     \<lparr>repositories_tbl = [other_repository], documentation_tbl = [other_version],
      monitoring_jobs_tbl = [other_job]\<rparr> \<and>
   references_ok (delete_repository 1 two_repositories) \<and>
   demo_version \<in> set (documentation_tbl (sys_db (run_events default_policy demo_events))) \<and>
   DeleteRepositoryRequest (d_repo_id demo_version) \<notin> set demo_update_events \<and>
   demo_version \<in> set (documentation_tbl (sys_db (fold (step default_policy) demo_update_events
       (run_events default_policy demo_events))))"
  using delete_repository_cascades
    [of 1 two_repositories default_policy "run_events default_policy demo_events"
        demo_update_events demo_version]
  by (simp add: references_ok_def two_repositories_def delete_repository_def
      demo_repository_def demo_version_def demo_job_def other_repository_def other_version_def
      other_job_def demo_completed demo_update_events_def)


section \<open>The Job Scheduler: one running job per repository\<close>

lemma running_of_map_le:
  assumes "\<And>j. j \<in> set jobs \<Longrightarrow> j_repo_id (g j) = j_repo_id j"
    and "\<And>j. j \<in> set jobs \<Longrightarrow> j_status (g j) = ''running'' \<Longrightarrow> j_status j = ''running''"
  shows "length (running_of (map g jobs) rid) \<le> length (running_of jobs rid)"
  using assms by (induction jobs) (auto simp: running_of_def)

lemma running_of_map_eq:
  assumes "\<And>j. j \<in> set jobs \<Longrightarrow>
      (j_repo_id (g j) = rid \<and> j_status (g j) = ''running'') = (j_repo_id j = rid \<and> j_status j = ''running'')"
  shows "length (running_of (map g jobs) rid) = length (running_of jobs rid)"
  using assms by (induction jobs) (auto simp: running_of_def)

lemma map_other_ids:
  "jid \<notin> j_id ` set jobs \<Longrightarrow> map (\<lambda>x. if j_id x = jid then h x else x) jobs = jobs"
  by (induction jobs) auto

lemma running_of_mark_le:
  "distinct (map j_id jobs) \<Longrightarrow>
   length (running_of (map (\<lambda>x. if j_id x = jid then h x else x) jobs) rid)
     \<le> Suc (length (running_of jobs rid))"
proof (induction jobs)
  case Nil
  then show ?case by (simp add: running_of_def)
next
  case (Cons x xs)
  show ?case
  proof (cases "j_id x = jid")
    case True
    with Cons.prems have "jid \<notin> j_id ` set xs" by auto
    then have "map (\<lambda>x. if j_id x = jid then h x else x) xs = xs" by (rule map_other_ids)
    then show ?thesis using True by (simp add: running_of_def)
  next
    case False
    then show ?thesis using Cons by (simp add: running_of_def)
  qed
qed

lemma same_id_same_row:
  "distinct (map j_id jobs) \<Longrightarrow> j \<in> set jobs \<Longrightarrow> x \<in> set jobs \<Longrightarrow> j_id x = j_id j \<Longrightarrow> x = j"
  by (meson distinct_map inj_onD)

lemma oldest_in: "oldest jobs = Some j \<Longrightarrow> j \<in> set jobs"
  by (induction jobs arbitrary: j) (auto split: option.splits if_splits)

lemma running_of_empty: "\<not> has_running db rid \<Longrightarrow> running_of (monitoring_jobs_tbl db) rid = []"
  by (auto simp: has_running_def running_of_def list_ex_iff filter_empty_conv)

lemma map_ids_preserved:
  "(\<And>x. j_id (g x) = j_id x) \<Longrightarrow> map j_id (map g jobs) = map j_id jobs"
  by (induction jobs) auto

lemma running_of_filter_le:
  "length (running_of (filter R jobs) rid) \<le> length (running_of jobs rid)"
  by (induction jobs) (auto simp: running_of_def)

lemma jobs_ok_map:
  assumes "jobs_ok jobs" and "\<And>x. j_id (g x) = j_id x"
    and "\<And>rid. length (running_of (map g jobs) rid) \<le> 1"
  shows "jobs_ok (map g jobs)"
proof -
  have "map j_id (map g jobs) = map j_id jobs"
    by (rule map_ids_preserved) (rule assms(2))
  then have "distinct (map j_id (map g jobs))"
    using assms(1) unfolding jobs_ok_def by (simp only:)
  then show ?thesis unfolding jobs_ok_def using assms(3) by blast
qed

lemma jobs_ok_update_not_running:
  assumes ok: "jobs_ok (monitoring_jobs_tbl db)"
    and upd: "update_monitoring_jobs P f db = Inr db'"
    and f: "\<And>j. j_status (f j) \<noteq> ''running''"
  shows "jobs_ok (monitoring_jobs_tbl db')"
proof -
  let ?g = "\<lambda>j. if P j then (f j)\<lparr>j_id := j_id j, j_repo_id := j_repo_id j\<rparr> else j"
  have tbl: "monitoring_jobs_tbl db' = map ?g (monitoring_jobs_tbl db)"
    by (rule update_monitoring_jobs_Inr(1) [OF upd])
  have "length (running_of (map ?g (monitoring_jobs_tbl db)) rid)
          \<le> length (running_of (monitoring_jobs_tbl db) rid)" for rid
    by (rule running_of_map_le) (auto simp: f split: if_splits)
  then have "length (running_of (map ?g (monitoring_jobs_tbl db)) rid) \<le> 1" for rid
    using ok le_trans unfolding jobs_ok_def by blast
  then have "jobs_ok (map ?g (monitoring_jobs_tbl db))"
    by (intro jobs_ok_map [OF ok]) simp_all
  then show ?thesis by (simp only: tbl)
qed

lemma jobs_ok_job_succeeded:
  assumes "jobs_ok (monitoring_jobs_tbl db)"
  shows "jobs_ok (monitoring_jobs_tbl (job_succeeded jid now db))"
proof (cases "update_monitoring_jobs (\<lambda>x. j_id x = jid \<and> j_status x = ''running'')
                (\<lambda>x. x\<lparr>j_status := ''completed'', j_completed_at := Some now\<rparr>) db")
  case (Inl e)
  then show ?thesis using assms by (simp add: job_succeeded_def)
next
  case (Inr db')
  have "jobs_ok (monitoring_jobs_tbl db')"
    by (rule jobs_ok_update_not_running [OF assms Inr]) simp
  then show ?thesis using Inr by (simp add: job_succeeded_def)
qed

lemma jobs_ok_job_failed:
  assumes "jobs_ok (monitoring_jobs_tbl db)"
  shows "jobs_ok (monitoring_jobs_tbl (job_failed p jid msg now db))"
proof (cases "update_monitoring_jobs (\<lambda>x. j_id x = jid \<and> j_status x = ''running'')
                (\<lambda>x. if j_retry_count x < max_retries p
                     then x\<lparr>j_retry_count := j_retry_count x + 1, j_status := ''pending'',
                            j_error_message := Some msg\<rparr>
                     else x\<lparr>j_status := ''failed'', j_error_message := Some msg,
                            j_completed_at := Some now\<rparr>) db")
  case (Inl e)
  then show ?thesis using assms by (simp add: job_failed_def)
next
  case (Inr db')
  have "jobs_ok (monitoring_jobs_tbl db')"
    by (rule jobs_ok_update_not_running [OF assms Inr]) simp
  then show ?thesis using Inr by (simp add: job_failed_def)
qed

lemma jobs_ok_dequeueNext:
  assumes ok: "jobs_ok (monitoring_jobs_tbl db)"
  shows "jobs_ok (monitoring_jobs_tbl (snd (dequeueNext now db)))"
proof (cases "oldest (filter (\<lambda>j. j_status j = ''pending'' \<and> \<not> has_running db (j_repo_id j))
                     (monitoring_jobs_tbl db))")
  case None
  then show ?thesis using ok by (simp add: dequeueNext_def)
next
  case (Some j)
  let ?f = "\<lambda>x. x\<lparr>j_status := ''running'', j_started_at := Some now\<rparr>"
  show ?thesis
  proof (cases "update_monitoring_jobs (\<lambda>x. j_id x = j_id j) ?f db")
    case (Inl e)
    then show ?thesis using ok Some by (simp add: dequeueNext_def)
  next
    case (Inr db')
    define g :: "monitoring_job_row \<Rightarrow> monitoring_job_row" where "g = (\<lambda>x. if j_id x = j_id j
        then (?f x)\<lparr>j_id := j_id x, j_repo_id := j_repo_id x\<rparr> else x)"
    have tbl: "monitoring_jobs_tbl db' = map g (monitoring_jobs_tbl db)"
      unfolding g_def by (rule update_monitoring_jobs_Inr(1) [OF Inr])
    have jin: "j \<in> set (monitoring_jobs_tbl db)" and idle: "\<not> has_running db (j_repo_id j)"
      using oldest_in [OF Some] by auto
    have dist: "distinct (map j_id (monitoring_jobs_tbl db))" using ok by (simp add: jobs_ok_def)
    have one: "length (running_of (map g (monitoring_jobs_tbl db)) rid) \<le> 1" for rid
    proof (cases "rid = j_repo_id j")
      case True
      have "length (running_of (map g (monitoring_jobs_tbl db)) rid)
              \<le> Suc (length (running_of (monitoring_jobs_tbl db) rid))"
        unfolding g_def by (rule running_of_mark_le [OF dist])
      then show ?thesis using running_of_empty [OF idle] True by simp
    next
      case False
      have "length (running_of (map g (monitoring_jobs_tbl db)) rid)
              = length (running_of (monitoring_jobs_tbl db) rid)"
      proof (rule running_of_map_eq)
        fix x assume x: "x \<in> set (monitoring_jobs_tbl db)"
        show "(j_repo_id (g x) = rid \<and> j_status (g x) = ''running'')
                = (j_repo_id x = rid \<and> j_status x = ''running'')"
          using same_id_same_row [OF dist jin x] False by (auto simp: g_def)
      qed
      then show ?thesis using ok by (simp add: jobs_ok_def)
    qed
    have "jobs_ok (map g (monitoring_jobs_tbl db))"
      by (rule jobs_ok_map [OF ok _ one]) (simp add: g_def)
    then show ?thesis using Some Inr tbl by (simp add: dequeueNext_def)
  qed
qed

lemma jobs_ok_enqueue:
  assumes ok: "jobs_ok (monitoring_jobs_tbl db)"
  shows "jobs_ok (monitoring_jobs_tbl (snd (enqueue jid now rid trig ch db)))"
proof (cases "active_job db rid")
  case (Some j)
  then show ?thesis using ok by (simp add: enqueue_def)
next
  case None
  let ?v = "\<lparr>ji_id = jid, ji_repo_id = rid, ji_status = ''pending'',
              ji_trigger_type = trig, ji_changes_detected = ch,
              ji_error_message = None, ji_retry_count = None, ji_started_at = None,
              ji_completed_at = None, ji_created_at = None\<rparr>"
  show ?thesis
  proof (cases "insert_monitoring_job now ?v db")
    case (Inl e)
    then show ?thesis using ok None by (simp add: enqueue_def)
  next
    case (Inr db')
    have "monitoring_jobs_tbl db' = monitoring_jobs_tbl db @ [monitoring_job_of_insert now ?v]"
      and "jid \<notin> j_id ` set (monitoring_jobs_tbl db)"
      using insert_monitoring_job_Inr(1,4) [OF Inr] by simp_all
    then have "jobs_ok (monitoring_jobs_tbl db')"
      using ok by (simp add: jobs_ok_def running_of_def monitoring_job_of_insert_def)
    then show ?thesis using None Inr by (simp add: enqueue_def)
  qed
qed

lemma jobs_ok_delete:
  assumes ok: "jobs_ok (monitoring_jobs_tbl db)"
  shows "jobs_ok (monitoring_jobs_tbl (delete_repository rid db))"
proof -
  have "length (running_of (filter (\<lambda>j. j_repo_id j \<noteq> rid) (monitoring_jobs_tbl db)) r) \<le> 1" for r
    using ok running_of_filter_le [of "\<lambda>j. j_repo_id j \<noteq> rid" "monitoring_jobs_tbl db" r]
    unfolding jobs_ok_def by (meson le_trans)
  then show ?thesis using ok
    by (simp add: jobs_ok_def delete_repository_def distinct_map_filter)
qed

lemma jobs_ok_create_analysis:
  "jobs_ok (monitoring_jobs_tbl (sys_db s)) \<Longrightarrow>
   jobs_ok (monitoring_jobs_tbl (sys_db (create_analysis rid u b now s)))"
  by (auto simp: create_analysis_def dest: insert_repository_Inr(3) split: sum.splits)

lemma jobs_ok_dequeue_and_start:
  assumes "jobs_ok (monitoring_jobs_tbl (sys_db s))"
  shows "jobs_ok (monitoring_jobs_tbl (sys_db (dequeue_and_start now s)))"
proof -
  have "jobs_ok (monitoring_jobs_tbl (snd (dequeueNext now (sys_db s))))"
    by (rule jobs_ok_dequeueNext [OF assms])
  then show ?thesis using assms
    by (auto simp: dequeue_and_start_def dest: apply_transition_Some(3)
        split: prod.splits option.splits)
qed

lemma jobs_ok_source_resolved:
  "jobs_ok (monitoring_jobs_tbl (sys_db s)) \<Longrightarrow>
   jobs_ok (monitoring_jobs_tbl (sys_db (source_resolved p rid h now s)))"
  by (auto simp: source_resolved_def jobs_ok_job_succeeded
      dest: apply_transition_Some(3) short_circuit_Some(3)
      split: option.splits run_stage.splits if_splits)

lemma jobs_ok_facts_extracted:
  "jobs_ok (monitoring_jobs_tbl (sys_db s)) \<Longrightarrow>
   jobs_ok (monitoring_jobs_tbl (sys_db (facts_extracted rid fc loc s)))"
  by (auto simp: facts_extracted_def dest: apply_transition_Some(3)
      split: option.splits run_stage.splits)

lemma jobs_ok_content_generated:
  "jobs_ok (monitoring_jobs_tbl (sys_db s)) \<Longrightarrow>
   jobs_ok (monitoring_jobs_tbl (sys_db (content_generated rid did content now s)))"
  by (auto simp: content_generated_def dest: append_version_Inr(3)
      split: option.splits run_stage.splits sum.splits)

lemma jobs_ok_status_flipped:
  "jobs_ok (monitoring_jobs_tbl (sys_db s)) \<Longrightarrow>
   jobs_ok (monitoring_jobs_tbl (sys_db (status_flipped rid now s)))"
  by (auto simp: status_flipped_def dest: apply_transition_Some(3)
      intro!: jobs_ok_job_succeeded split: option.splits run_stage.splits)

lemma jobs_ok_stage_failed:
  "jobs_ok (monitoring_jobs_tbl (sys_db s)) \<Longrightarrow>
   jobs_ok (monitoring_jobs_tbl (sys_db (stage_failed p rid msg now s)))"
  by (auto simp: stage_failed_def dest: apply_transition_Some(3)
      intro!: jobs_ok_job_failed split: option.splits)

lemma jobs_ok_step:
  "jobs_ok (monitoring_jobs_tbl (sys_db s)) \<Longrightarrow> jobs_ok (monitoring_jobs_tbl (sys_db (step p e s)))"
  by (cases e)
    (simp_all add: jobs_ok_create_analysis jobs_ok_delete delete_request_def jobs_ok_enqueue
      jobs_ok_dequeue_and_start jobs_ok_source_resolved jobs_ok_facts_extracted
      jobs_ok_content_generated jobs_ok_status_flipped jobs_ok_stage_failed)

lemma jobs_ok_run_events: "jobs_ok (monitoring_jobs_tbl (sys_db (run_events p evs)))"
proof (induction evs rule: rev_induct)
  case Nil
  then show ?case
    by (simp add: run_events_def initial_system_def empty_database_def jobs_ok_def running_of_def)
next
  case (snoc e evs)
  then show ?case by (simp add: run_events_snoc jobs_ok_step)
qed

text \<open>
  Claim C2. After any sequence of steps, that is at every instant between two atomic
  steps of the scheduler, the executor and the requests, a repository has at most one
  monitoring job in state \<open>running\<close>.
\<close>

theorem at_most_one_running_job:
  "length (filter (\<lambda>j. j_repo_id j = rid \<and> j_status j = ''running'')
     (monitoring_jobs_tbl (sys_db (run_events p evs)))) \<le> 1"
  using jobs_ok_run_events [of p evs] by (simp add: jobs_ok_def running_of_def)

text \<open>After the dequeue of the example the repository has exactly one running job.\<close>

theorem at_most_one_running_job_witness:
  "length (filter (\<lambda>j. j_repo_id j = 1 \<and> j_status j = ''running'')
     (monitoring_jobs_tbl (sys_db (run_events default_policy demo_start_events)))) = 1"
  using at_most_one_running_job [of 1 default_policy demo_start_events]
  by (simp add: demo_running demo_job_def)


section \<open>The Repository Registry: status and error message\<close>





lemma registry_ok_cong: "repositories_tbl db' = repositories_tbl db \<Longrightarrow> registry_ok db' = registry_ok db"
  by (simp add: registry_ok_def)

























section \<open>The Analysis Executor: completed means published\<close>

lemma has_version_cong:
  "documentation_tbl db' = documentation_tbl db \<Longrightarrow> has_version db' = has_version db"
  by (simp add: has_version_def fun_eq_iff)

lemma row_published_cong:
  assumes "documentation_tbl db' = documentation_tbl db"
  shows "row_published db' = row_published db"
  by (simp add: row_published_def fun_eq_iff has_version_cong [OF assms])

lemma published_ok_jobs_only:
  assumes "published_ok s"
    and "repositories_tbl db' = repositories_tbl (sys_db s)"
    and "documentation_tbl db' = documentation_tbl (sys_db s)"
  shows "published_ok (s\<lparr>sys_db := db'\<rparr>)"
  using assms
  by (simp add: published_ok_def row_published_cong [of db' "sys_db s"]
      has_version_cong [of db' "sys_db s"])

lemma rows_published_transition:
  assumes ok: "\<forall>r\<in>set (repositories_tbl db). row_published db r"
    and tr: "apply_transition ev assign rid db = Some db'"
    and ev: "ev \<noteq> content_produced"
    and asg: "\<And>x. r_last_commit_hash (assign x) = r_last_commit_hash x"
  shows "\<forall>r\<in>set (repositories_tbl db'). row_published db' r"
proof -
  obtain st0 st where t: "transition st0 ev = Some st"
    and tbl: "repositories_tbl db' =
             map (\<lambda>x. if r_id x = rid \<and> r_status x = st0
                       then (assign x)\<lparr>r_status := st, r_id := r_id x\<rparr> else x)
               (repositories_tbl db)"
    using apply_transition_Some(1) [OF tr] by blast
  have docs: "documentation_tbl db' = documentation_tbl db" by (rule apply_transition_Some(2) [OF tr])
  have st: "st \<noteq> ''completed''" using transition_target(4) [OF t] ev by simp
  have new: "row_published db ((assign x)\<lparr>r_status := st, r_id := r_id x\<rparr>)"
    if "row_published db x" for x
    using that st asg [of x] by (simp add: row_published_def)
  show ?thesis
  proof
    fix r assume "r \<in> set (repositories_tbl db')"
    then obtain x where x: "x \<in> set (repositories_tbl db)"
      and r: "r = (if r_id x = rid \<and> r_status x = st0
                   then (assign x)\<lparr>r_status := st, r_id := r_id x\<rparr> else x)"
      unfolding tbl by auto
    have "row_published db x" using ok x by blast
    then have "row_published db r" using new [of x] r by (cases "r_id x = rid \<and> r_status x = st0") simp_all
    then show "row_published db' r" by (simp only: row_published_cong [OF docs])
  qed
qed

lemma published_ok_create_analysis:
  assumes "published_ok s"
  shows "published_ok (create_analysis rid u b now s)"
proof (cases "insert_repository now (new_repository rid u b) (sys_db s)")
  case (Inl e)
  then show ?thesis using assms by (simp add: create_analysis_def)
next
  case (Inr db')
  have "row_published db' (repository_of_insert now (new_repository rid u b))"
    by (simp add: row_published_def repository_of_insert_def new_repository_def)
  moreover have docs: "documentation_tbl db' = documentation_tbl (sys_db s)"
    by (rule insert_repository_Inr(2) [OF Inr])
  ultimately show ?thesis using assms insert_repository_Inr(1) [OF Inr] Inr
    by (auto simp: create_analysis_def published_ok_def row_published_cong [OF docs]
        has_version_cong [OF docs])
qed

lemma has_version_delete:
  "r \<noteq> rid \<Longrightarrow> has_version (delete_repository rid db) r h = has_version db r h"
  by (auto simp: has_version_def delete_repository_def)

lemma published_ok_delete:
  assumes "published_ok s"
  shows "published_ok (delete_request rid s)"
proof -
  have "row_published (delete_repository rid (sys_db s)) r"
    if "r \<in> set (repositories_tbl (sys_db s))" and "r_id r \<noteq> rid" for r
    using assms that by (simp add: published_ok_def row_published_def has_version_delete)
  moreover have "has_version (delete_repository rid (sys_db s)) r h"
    if "sys_runs s r = Some rn" and "run_stage rn = Persisted h" and "r \<noteq> rid" for r rn h
    using assms that by (simp add: published_ok_def has_version_delete)
  ultimately show ?thesis
    by (auto simp: published_ok_def delete_request_def) (simp add: delete_repository_def)
qed

lemma published_ok_enqueue:
  "published_ok s \<Longrightarrow> published_ok (s\<lparr>sys_db := snd (enqueue jid now rid trig ch (sys_db s))\<rparr>)"
  by (rule published_ok_jobs_only) simp_all

lemma published_ok_dequeue_and_start:
  assumes "published_ok s"
  shows "published_ok (dequeue_and_start now s)"
proof (cases "dequeueNext now (sys_db s)")
  case (Pair jo db1)
  have r1: "repositories_tbl db1 = repositories_tbl (sys_db s)"
    and d1: "documentation_tbl db1 = documentation_tbl (sys_db s)"
    using dequeueNext_tables [of now "sys_db s"] Pair by simp_all
  have rows1: "\<forall>r\<in>set (repositories_tbl db1). row_published db1 r"
    using assms by (simp add: published_ok_def r1 row_published_cong [OF d1])
  show ?thesis
  proof (cases jo)
    case None
    then show ?thesis using Pair assms by (simp add: dequeue_and_start_def)
  next
    case (Some j)
    define db2 where "db2 = (case apply_transition job_starts (\<lambda>x. x) (j_repo_id j) db1 of
                               None \<Rightarrow> db1 | Some d \<Rightarrow> d)"
    have rows2: "\<forall>r\<in>set (repositories_tbl db2). row_published db2 r"
      using rows1 rows_published_transition [OF rows1, of job_starts _ "j_repo_id j"]
      by (auto simp: db2_def split: option.splits)
    have d2: "documentation_tbl db2 = documentation_tbl (sys_db s)"
      using d1 by (auto simp: db2_def dest: apply_transition_Some(2) split: option.splits)
    have "dequeue_and_start now s =
        \<lparr>sys_db = db2, sys_runs = (sys_runs s)(j_repo_id j :=
            Some \<lparr>run_job = j_id j, run_trigger = j_trigger_type j, run_stage = Resolving\<rparr>)\<rparr>"
      using Pair Some by (simp add: dequeue_and_start_def db2_def)
    then show ?thesis using assms rows2
      by (auto simp: published_ok_def has_version_cong [OF d2])
  qed
qed

lemma published_okI:
  assumes "\<forall>r\<in>set (repositories_tbl db'). row_published db' r"
    and "\<And>rid rn h. runs' rid = Some rn \<Longrightarrow> run_stage rn = Persisted h \<Longrightarrow> has_version db' rid h"
  shows "published_ok \<lparr>sys_db = db', sys_runs = runs'\<rparr>"
  using assms by (simp add: published_ok_def)

lemma published_ok_rows: "published_ok s \<Longrightarrow> \<forall>r\<in>set (repositories_tbl (sys_db s)). row_published (sys_db s) r"
  by (simp add: published_ok_def)

lemma published_ok_runs:
  "published_ok s \<Longrightarrow> sys_runs s rid = Some rn \<Longrightarrow> run_stage rn = Persisted h \<Longrightarrow>
   has_version (sys_db s) rid h"
  by (simp add: published_ok_def)

lemma rows_published_job_succeeded:
  "(\<forall>r\<in>set (repositories_tbl (job_succeeded jid now db)). row_published (job_succeeded jid now db) r)
     = (\<forall>r\<in>set (repositories_tbl db). row_published db r)"
  by (simp add: row_published_cong [of "job_succeeded jid now db" db])

lemma rows_published_job_failed:
  "(\<forall>r\<in>set (repositories_tbl (job_failed p jid msg now db)). row_published (job_failed p jid msg now db) r)
     = (\<forall>r\<in>set (repositories_tbl db). row_published db r)"
  by (simp add: row_published_cong [of "job_failed p jid msg now db" db])

lemma has_version_job_succeeded [simp]:
  "has_version (job_succeeded jid now db) = has_version db"
  by (rule has_version_cong) simp

lemma has_version_job_failed [simp]:
  "has_version (job_failed p jid msg now db) = has_version db"
  by (rule has_version_cong) simp

lemma rows_published_short_circuit:
  assumes ok: "\<forall>r\<in>set (repositories_tbl db). row_published db r"
    and sc: "short_circuit rid h now db = Some db'"
  shows "\<forall>r\<in>set (repositories_tbl db'). row_published db' r"
proof
  fix r assume "r \<in> set (repositories_tbl db')"
  then obtain x where x: "x \<in> set (repositories_tbl db)"
    and r: "r = (if r_id x = rid \<and> r_status x = ''cloning'' \<and> r_last_commit_hash x = Some h
                 then x\<lparr>r_status := ''completed'', r_last_analyzed_at := Some now,
                        r_last_commit_hash := Some h\<rparr> else x)"
    unfolding short_circuit_Some(1) [OF sc] by auto
  have "row_published db x" using ok x by blast
  then have "row_published db r"
    using r by (cases "r_id x = rid \<and> r_status x = ''cloning'' \<and> r_last_commit_hash x = Some h")
      (simp_all add: row_published_def)
  then show "row_published db' r"
    by (simp only: row_published_cong [OF short_circuit_Some(2) [OF sc]])
qed

lemma published_ok_source_resolved:
  assumes ok: "published_ok s"
  shows "published_ok (source_resolved p rid h now s)"
proof (cases "sys_runs s rid")
  case None
  then show ?thesis using ok by (simp add: source_resolved_def)
next
  case (Some rn)
  show ?thesis
  proof (cases "run_stage rn = Resolving")
    case False
    then show ?thesis using ok Some by (simp add: source_resolved_def split: run_stage.splits)
  next
    case True
    show ?thesis
    proof (cases "if skip_unchanged_polls p \<and> run_trigger rn = ''scheduled-poll''
                  then short_circuit rid h now (sys_db s) else None")
      case (Some db')
      then have sc: "short_circuit rid h now (sys_db s) = Some db'" by (simp split: if_splits)
      have eq: "source_resolved p rid h now s =
          \<lparr>sys_db = job_succeeded (run_job rn) now db', sys_runs = (sys_runs s)(rid := None)\<rparr>"
        using \<open>sys_runs s rid = Some rn\<close> True Some by (simp add: source_resolved_def)
      have docs: "documentation_tbl db' = documentation_tbl (sys_db s)"
        by (rule short_circuit_Some(2) [OF sc])
      show ?thesis unfolding eq
      proof (rule published_okI)
        show "\<forall>r\<in>set (repositories_tbl (job_succeeded (run_job rn) now db')).
                row_published (job_succeeded (run_job rn) now db') r"
          unfolding rows_published_job_succeeded
          by (rule rows_published_short_circuit [OF published_ok_rows [OF ok] sc])
      next
        fix r rn' h'
        assume "((sys_runs s)(rid := None)) r = Some rn'" and "run_stage rn' = Persisted h'"
        then have "has_version (sys_db s) r h'"
          using published_ok_runs [OF ok, of r rn' h'] by (simp split: if_splits)
        then show "has_version (job_succeeded (run_job rn) now db') r h'"
          by (simp add: has_version_cong [OF docs])
      qed
    next
      case None
      show ?thesis
      proof (cases "apply_transition clone_succeeds (\<lambda>x. x) rid (sys_db s)")
        case None
        then show ?thesis using ok \<open>sys_runs s rid = Some rn\<close> True
            \<open>(if skip_unchanged_polls p \<and> run_trigger rn = ''scheduled-poll''
                then short_circuit rid h now (sys_db s) else None) = None\<close>
          by (simp add: source_resolved_def)
      next
        case (Some db')
        have eq: "source_resolved p rid h now s =
            \<lparr>sys_db = db', sys_runs = (sys_runs s)(rid := Some (rn\<lparr>run_stage := Extracting h\<rparr>))\<rparr>"
          using \<open>sys_runs s rid = Some rn\<close> True Some
            \<open>(if skip_unchanged_polls p \<and> run_trigger rn = ''scheduled-poll''
                then short_circuit rid h now (sys_db s) else None) = None\<close>
          by (simp add: source_resolved_def)
        have docs: "documentation_tbl db' = documentation_tbl (sys_db s)"
          by (rule apply_transition_Some(2) [OF Some])
        show ?thesis unfolding eq
        proof (rule published_okI)
          show "\<forall>r\<in>set (repositories_tbl db'). row_published db' r"
            by (rule rows_published_transition [OF published_ok_rows [OF ok] Some]) simp_all
        next
          fix r rn' h'
          assume "((sys_runs s)(rid := Some (rn\<lparr>run_stage := Extracting h\<rparr>))) r = Some rn'"
            and "run_stage rn' = Persisted h'"
          then have "has_version (sys_db s) r h'"
            using published_ok_runs [OF ok, of r rn' h'] by (auto split: if_splits)
          then show "has_version db' r h'" by (simp add: has_version_cong [OF docs])
        qed
      qed
    qed
  qed
qed

lemma published_ok_facts_extracted:
  assumes ok: "published_ok s"
  shows "published_ok (facts_extracted rid fc loc s)"
proof (cases "sys_runs s rid")
  case None
  then show ?thesis using ok by (simp add: facts_extracted_def)
next
  case (Some rn)
  show ?thesis
  proof (cases "run_stage rn")
    case (Extracting h)
    show ?thesis
    proof (cases "apply_transition extraction_succeeds (\<lambda>x. x) rid (sys_db s)")
      case None
      then show ?thesis using ok Some Extracting by (simp add: facts_extracted_def)
    next
      case (Some db')
      have eq: "facts_extracted rid fc loc s =
          \<lparr>sys_db = db', sys_runs = (sys_runs s)(rid := Some (rn\<lparr>run_stage := Generating h fc loc\<rparr>))\<rparr>"
        using \<open>sys_runs s rid = Some rn\<close> Extracting Some by (simp add: facts_extracted_def)
      have docs: "documentation_tbl db' = documentation_tbl (sys_db s)"
        by (rule apply_transition_Some(2) [OF Some])
      show ?thesis unfolding eq
      proof (rule published_okI)
        show "\<forall>r\<in>set (repositories_tbl db'). row_published db' r"
          by (rule rows_published_transition [OF published_ok_rows [OF ok] Some]) simp_all
      next
        fix r rn' h'
        assume "((sys_runs s)(rid := Some (rn\<lparr>run_stage := Generating h fc loc\<rparr>))) r = Some rn'"
          and "run_stage rn' = Persisted h'"
        then have "has_version (sys_db s) r h'"
          using published_ok_runs [OF ok, of r rn' h'] by (auto split: if_splits)
        then show "has_version db' r h'" by (simp add: has_version_cong [OF docs])
      qed
    qed
  qed (use ok Some in \<open>simp_all add: facts_extracted_def\<close>)
qed

lemma published_ok_content_generated:
  assumes ok: "published_ok s"
  shows "published_ok (content_generated rid did content now s)"
proof (cases "sys_runs s rid")
  case None
  then show ?thesis using ok by (simp add: content_generated_def)
next
  case (Some rn)
  show ?thesis
  proof (cases "run_stage rn")
    case (Generating h fc loc)
    show ?thesis
    proof (cases "append_version did now rid content h fc loc (sys_db s)")
      case (Inl e)
      then show ?thesis using ok Some Generating by (simp add: content_generated_def)
    next
      case (Inr res)
      obtain d db' where res: "res = (d, db')" by (cases res) auto
      have a: "append_version did now rid content h fc loc (sys_db s) = Inr (d, db')"
        using Inr res by simp
      have eq: "content_generated rid did content now s =
          \<lparr>sys_db = db', sys_runs = (sys_runs s)(rid := Some (rn\<lparr>run_stage := Persisted h\<rparr>))\<rparr>"
        using Some Generating a by (simp add: content_generated_def)
      have mono: "has_version db' r h'" if "has_version (sys_db s) r h'" for r h'
        using that by (auto simp: has_version_def append_version_Inr(1) [OF a])
      have new: "has_version db' rid h"
        using append_version_Inr(4,6) [OF a] by (auto simp: has_version_def append_version_Inr(1) [OF a])
      show ?thesis unfolding eq
      proof (rule published_okI)
        show "\<forall>r\<in>set (repositories_tbl db'). row_published db' r"
          using published_ok_rows [OF ok] mono
          by (auto simp: append_version_Inr(2) [OF a] row_published_def)
      next
        fix r rn' h'
        assume "((sys_runs s)(rid := Some (rn\<lparr>run_stage := Persisted h\<rparr>))) r = Some rn'"
          and "run_stage rn' = Persisted h'"
        then show "has_version db' r h'"
          using published_ok_runs [OF ok, of r rn' h'] mono new by (auto split: if_splits)
      qed
    qed
  qed (use ok Some in \<open>simp_all add: content_generated_def\<close>)
qed

lemma rows_published_completed:
  assumes ok: "\<forall>r\<in>set (repositories_tbl db). row_published db r"
    and tr: "apply_transition content_produced
               (\<lambda>x. x\<lparr>r_last_analyzed_at := Some now, r_last_commit_hash := Some h\<rparr>) rid db = Some db'"
    and ver: "has_version db rid h"
  shows "\<forall>r\<in>set (repositories_tbl db'). row_published db' r"
proof
  fix r assume rin: "r \<in> set (repositories_tbl db')"
  obtain st0 st where tbl: "repositories_tbl db' =
             map (\<lambda>x. if r_id x = rid \<and> r_status x = st0
                       then (x\<lparr>r_last_analyzed_at := Some now, r_last_commit_hash := Some h\<rparr>)
                              \<lparr>r_status := st, r_id := r_id x\<rparr> else x)
               (repositories_tbl db)"
    using apply_transition_Some(1) [OF tr] by blast
  from rin obtain x where x: "x \<in> set (repositories_tbl db)"
    and r: "r = (if r_id x = rid \<and> r_status x = st0
                 then (x\<lparr>r_last_analyzed_at := Some now, r_last_commit_hash := Some h\<rparr>)
                        \<lparr>r_status := st, r_id := r_id x\<rparr> else x)"
    unfolding tbl by auto
  have "row_published db x" using ok x by blast
  then have "row_published db r"
    using r ver by (cases "r_id x = rid \<and> r_status x = st0") (auto simp: row_published_def)
  then show "row_published db' r"
    by (simp only: row_published_cong [OF apply_transition_Some(2) [OF tr]])
qed

lemma published_ok_status_flipped:
  assumes ok: "published_ok s"
  shows "published_ok (status_flipped rid now s)"
proof (cases "sys_runs s rid")
  case None
  then show ?thesis using ok by (simp add: status_flipped_def)
next
  case (Some rn)
  show ?thesis
  proof (cases "run_stage rn")
    case (Persisted h)
    show ?thesis
    proof (cases "apply_transition content_produced
                    (\<lambda>x. x\<lparr>r_last_analyzed_at := Some now, r_last_commit_hash := Some h\<rparr>)
                    rid (sys_db s)")
      case None
      then show ?thesis using ok Some Persisted by (simp add: status_flipped_def)
    next
      case (Some db')
      have eq: "status_flipped rid now s =
          \<lparr>sys_db = job_succeeded (run_job rn) now db', sys_runs = (sys_runs s)(rid := None)\<rparr>"
        using \<open>sys_runs s rid = Some rn\<close> Persisted Some by (simp add: status_flipped_def)
      have docs: "documentation_tbl db' = documentation_tbl (sys_db s)"
        by (rule apply_transition_Some(2) [OF Some])
      have ver: "has_version (sys_db s) rid h"
        by (rule published_ok_runs [OF ok \<open>sys_runs s rid = Some rn\<close> Persisted])
      show ?thesis unfolding eq
      proof (rule published_okI)
        show "\<forall>r\<in>set (repositories_tbl (job_succeeded (run_job rn) now db')).
                row_published (job_succeeded (run_job rn) now db') r"
          unfolding rows_published_job_succeeded
          by (rule rows_published_completed [OF published_ok_rows [OF ok] Some ver])
      next
        fix r rn' h'
        assume "((sys_runs s)(rid := None)) r = Some rn'" and "run_stage rn' = Persisted h'"
        then have "has_version (sys_db s) r h'"
          using published_ok_runs [OF ok, of r rn' h'] by (simp split: if_splits)
        then show "has_version (job_succeeded (run_job rn) now db') r h'"
          by (simp add: has_version_cong [OF docs])
      qed
    qed
  qed (use ok Some in \<open>simp_all add: status_flipped_def\<close>)
qed

lemma published_ok_stage_failed:
  assumes ok: "published_ok s"
  shows "published_ok (stage_failed p rid msg now s)"
proof (cases "sys_runs s rid")
  case None
  then show ?thesis using ok by (simp add: stage_failed_def)
next
  case (Some rn)
  show ?thesis
  proof (cases "failure_of (run_stage rn)")
    case None
    then show ?thesis using ok Some by (simp add: stage_failed_def)
  next
    case (Some ev)
    show ?thesis
    proof (cases "apply_transition ev (\<lambda>x. x\<lparr>r_error_message := Some msg\<rparr>) rid (sys_db s)")
      case None
      then show ?thesis using ok \<open>sys_runs s rid = Some rn\<close> Some by (simp add: stage_failed_def)
    next
      case (Some db')
      have eq: "stage_failed p rid msg now s =
          \<lparr>sys_db = job_failed p (run_job rn) msg now db', sys_runs = (sys_runs s)(rid := None)\<rparr>"
        using \<open>sys_runs s rid = Some rn\<close> \<open>failure_of (run_stage rn) = Some ev\<close> Some
        by (simp add: stage_failed_def)
      have docs: "documentation_tbl db' = documentation_tbl (sys_db s)"
        by (rule apply_transition_Some(2) [OF Some])
      show ?thesis unfolding eq
      proof (rule published_okI)
        show "\<forall>r\<in>set (repositories_tbl (job_failed p (run_job rn) msg now db')).
                row_published (job_failed p (run_job rn) msg now db') r"
          unfolding rows_published_job_failed
          by (rule rows_published_transition [OF published_ok_rows [OF ok] Some
                failure_of_not_content [OF \<open>failure_of (run_stage rn) = Some ev\<close>]]) simp
      next
        fix r rn' h'
        assume "((sys_runs s)(rid := None)) r = Some rn'" and "run_stage rn' = Persisted h'"
        then have "has_version (sys_db s) r h'"
          using published_ok_runs [OF ok, of r rn' h'] by (simp split: if_splits)
        then show "has_version (job_failed p (run_job rn) msg now db') r h'"
          by (simp add: has_version_cong [OF docs])
      qed
    qed
  qed
qed

lemma published_ok_step: "published_ok s \<Longrightarrow> published_ok (step p e s)"
  by (cases e)
    (simp_all add: published_ok_create_analysis published_ok_delete published_ok_enqueue
      published_ok_dequeue_and_start published_ok_source_resolved published_ok_facts_extracted
      published_ok_content_generated published_ok_status_flipped published_ok_stage_failed)

lemma published_ok_run_events: "published_ok (run_events p evs)"
proof (induction evs rule: rev_induct)
  case Nil
  then show ?case
    by (simp add: run_events_def initial_system_def empty_database_def published_ok_def)
next
  case (snoc e evs)
  then show ?case by (simp add: run_events_snoc published_ok_step)
qed

text \<open>
  Claim C3. After any sequence of steps, that is in every state a reader can observe,
  a repository whose status is \<open>completed\<close> has a documentation version of its own
  whose \<open>commit_hash\<close> is the repository's \<open>last_commit_hash\<close>.
\<close>

theorem completed_has_version:
  assumes "r \<in> set (repositories_tbl (sys_db (run_events p evs)))"
    and "r_status r = ''completed''"
  shows "\<exists>d\<in>set (documentation_tbl (sys_db (run_events p evs))).
           d_repo_id d = r_id r \<and> r_last_commit_hash r = Some (d_commit_hash d)"
proof -
  have "row_published (sys_db (run_events p evs)) r"
    using published_ok_rows [OF published_ok_run_events] assms(1) by blast
  then show ?thesis using assms(2) by (auto simp: row_published_def has_version_def)
qed

text \<open>The example run ends with the repository completed at the commit of its version 1.\<close>

theorem completed_has_version_witness:
  "demo_repository ''completed'' (Some ''abc123'') None (Some 15)
     \<in> set (repositories_tbl (sys_db (run_events default_policy demo_events))) \<and>
   r_status (demo_repository ''completed'' (Some ''abc123'') None (Some 15)) = ''completed'' \<and>
   demo_version \<in> set (documentation_tbl (sys_db (run_events default_policy demo_events))) \<and>
   d_repo_id demo_version = r_id (demo_repository ''completed'' (Some ''abc123'') None (Some 15)) \<and>
   r_last_commit_hash (demo_repository ''completed'' (Some ''abc123'') None (Some 15))
     = Some (d_commit_hash demo_version)"
  using completed_has_version
    [of "demo_repository ''completed'' (Some ''abc123'') None (Some 15)" default_policy demo_events]
  by (simp add: demo_completed demo_repository_def demo_version_def)

end
